theory Spec2Isabelle
  imports Main "HOL-Library.AList"
begin

section \<open>JavaScript strings\<close>

text \<open>
  Strings are lists of characters. \<open>startsWith\<close> and \<open>str_includes\<close> are
  \<^verbatim>\<open>String.prototype.startsWith\<close> and \<^verbatim>\<open>String.prototype.includes\<close>;
  \<open>truthy\<close> is the truth value JavaScript gives a string in a condition
  (the empty string is falsy).
\<close>

definition startsWith :: "string \<Rightarrow> string \<Rightarrow> bool" where
  "startsWith s p = (take (length p) s = p)"

fun str_includes :: "string \<Rightarrow> string \<Rightarrow> bool" where
  "str_includes [] p = (p = [])"
| "str_includes (c # s) p = (startsWith (c # s) p \<or> str_includes s p)"

definition truthy :: "string \<Rightarrow> bool" where
  "truthy s = (s \<noteq> [])"

text \<open>\<^verbatim>\<open>arg.split('=')[1]\<close> for an argument that contains an equals sign.\<close>

definition split_eq_1 :: "string \<Rightarrow> string" where
  "split_eq_1 arg =
     takeWhile (\<lambda>c. c \<noteq> CHR ''='') (drop 1 (dropWhile (\<lambda>c. c \<noteq> CHR ''='') arg))"

section \<open>The vendored binary directory\<close>

text \<open>
  The platform's subdirectory of \<^verbatim>\<open>.tinytex/bin\<close> is an association list from
  entry names to nodes, in the order \<^verbatim>\<open>readdirSync\<close> lists them. A symbolic link
  points either at another name of the same directory or outside of it. A target
  outside is inaccessible (\<open>None\<close>) or is reached after a number of further links.
  \<open>Unreadable\<close> is an entry on which \<^verbatim>\<open>lstat\<close> and \<^verbatim>\<open>stat\<close> fail. \<open>File\<close> stands
  for every entry that is not a link. No component of the path of the directory
  itself is taken to be a link.
\<close>

datatype platform = Win32 | Darwin | Other

datatype target = Inside string | Outside "nat option"

datatype node = File | Symlink target | Unreadable

type_synonym dir = "(string \<times> node) list"

text \<open>
  Following links: path resolution gives up (\<^verbatim>\<open>ELOOP\<close>) once it has followed as
  many links as the system allows. \<open>resolves k d n\<close> says that the name \<open>n\<close> leads to a
  file or an accessible outside target when \<open>k\<close> more links may be followed; a cycle
  of links exhausts every budget.
\<close>

fun resolves :: "nat \<Rightarrow> dir \<Rightarrow> string \<Rightarrow> bool" where
  "resolves k d n =
     (case map_of d n of
        None \<Rightarrow> False
      | Some File \<Rightarrow> True
      | Some Unreadable \<Rightarrow> False
      | Some (Symlink t) \<Rightarrow>
          (case k of
             0 \<Rightarrow> False
           | Suc j \<Rightarrow>
               (case t of
                  Outside None \<Rightarrow> False
                | Outside (Some further) \<Rightarrow> further \<le> j
                | Inside m \<Rightarrow> resolves j d m)))"

declare resolves.simps [simp del]

datatype errno = ENOENT | EACCES | EPERM | EEXIST | ELOOP

datatype origin = System | Tinytex

record parsed_path =
  pp_dir :: string
  pp_name :: string

datatype message =
    Usage
  | Force_installing
  | Installing_notice
  | Manual_install_hint
  | File_not_found string
  | Engine_not_found string
  | Converting string
  | Created string
  | Unknown_option string
  | Trying_xelatex
  | Failed_both string
  | Conversion_failed string
  | Tip
  | Fixed_symlinks nat
  | Setup_checking
  | Setup_found_existing
  | Setup_already_installed
  | Setup_installing
  | Setup_install_error
  | Setup_installed
  | Setup_failed
  | Setup_nonfatal

datatype event =
    Stdout message
  | Stderr message
  | Unlinked string
  | Symlinked string string
  | Copied string string
  | Exec_which
  | Exec_version
  | Spawn_install
  | Fetch_archive
  | Run_engine string string string

text \<open>
  Everything the scripts read from their surroundings is a field of the world:
  \<^item> \<open>platform\<close>: \<^verbatim>\<open>os.platform()\<close>, as far as the scripts tell platforms apart;
  \<^item> \<open>bin\<close>: the vendored directory, \<open>None\<close> when it does not exist (when it
    exists it is a directory that can be listed);
  \<^item> \<open>max_links\<close>: the number of symbolic links path resolution follows before it
    fails (40 on Linux);
  \<^item> \<open>undeletable\<close>: the names on which \<^verbatim>\<open>unlinkSync\<close> throws; \<open>can_symlink\<close>:
    whether \<^verbatim>\<open>symlinkSync\<close> is able to create an entry there; \<open>can_copy\<close>: the names
    that \<^verbatim>\<open>copyFileSync\<close> is able to read and copy to a new entry there;
    \<open>copy_onto\<close>: what \<^verbatim>\<open>copyFileSync\<close> makes of the directory when the destination
    already has an entry (\<open>None\<close> when it throws), which depends on what lies
    outside the directory and is left open;
  \<^item> \<open>which_pdflatex\<close>: the trimmed output of \<^verbatim>\<open>which pdflatex || where pdflatex\<close>,
    \<open>None\<close> when the command fails; \<open>pdflatex_runs\<close>: whether
    \<^verbatim>\<open>pdflatex --version\<close> succeeds;
  \<^item> \<open>module_dir\<close>: \<^verbatim>\<open>__dirname\<close>; \<open>path_join\<close>, \<open>path_dirname\<close>,
    \<open>path_basename\<close> and \<open>path_parse\<close>: the functions of Node's \<^verbatim>\<open>path\<close> module,
    which differ between platforms and are left open;
  \<^item> \<open>files\<close>: the paths of the user that exist;
  \<^item> \<open>latex\<close>: for an engine command and an input path, \<open>None\<close> when the run
    succeeds and otherwise the message of the error it emits;
  \<^item> \<open>fetch\<close>: whether downloading and extracting the archive succeeds, and the
    vendored directory the attempt leaves behind;
  \<^item> \<open>spawn_error\<close>: the error of spawning the install script, if it cannot be
    spawned; \<open>postinstall\<close>: whether \<^verbatim>\<open>npm_lifecycle_event\<close> is \<^verbatim>\<open>postinstall\<close>.
\<close>

record world =
  platform :: platform
  bin :: "dir option"
  max_links :: nat
  undeletable :: "string list"
  can_symlink :: bool
  can_copy :: "string \<Rightarrow> bool"
  copy_onto :: "dir \<Rightarrow> string \<Rightarrow> string \<Rightarrow> dir option"
  which_pdflatex :: "string option"
  pdflatex_runs :: bool
  module_dir :: string
  path_join :: "string list \<Rightarrow> string"
  path_dirname :: "string \<Rightarrow> string"
  path_basename :: "string \<Rightarrow> string"
  path_parse :: "string \<Rightarrow> parsed_path"
  files :: "string list"
  latex :: "string \<Rightarrow> string \<Rightarrow> string option"
  fetch :: "bool \<times> dir option"
  spawn_error :: "string option"
  postinstall :: bool

subsection \<open>Filesystem calls on the vendored directory\<close>

definition exe :: "world \<Rightarrow> string \<Rightarrow> string" where
  "exe w name = (if platform w = Win32 then name @ ''.exe'' else name)"

definition existsSync :: "world \<Rightarrow> dir \<Rightarrow> string \<Rightarrow> bool" where
  "existsSync w d f = resolves (max_links w) d f"

definition lstatSync :: "dir \<Rightarrow> string \<Rightarrow> errno + node" where
  "lstatSync d f =
     (case map_of d f of
        None \<Rightarrow> Inl ENOENT
      | Some Unreadable \<Rightarrow> Inl EACCES
      | Some x \<Rightarrow> Inr x)"

fun isSymbolicLink :: "node \<Rightarrow> bool" where
  "isSymbolicLink (Symlink t) = True"
| "isSymbolicLink x = False"

definition accessSync :: "world \<Rightarrow> dir \<Rightarrow> string \<Rightarrow> errno + unit" where
  "accessSync w d f = (if resolves (max_links w) d f then Inr () else Inl ENOENT)"

definition unlinkSync :: "world \<Rightarrow> dir \<Rightarrow> string \<Rightarrow> errno + dir" where
  "unlinkSync w d f =
     (if map_of d f = None then Inl ENOENT
      else if f \<in> set (undeletable w) then Inl EPERM
      else Inr (AList.delete f d))"

definition symlinkSync :: "world \<Rightarrow> dir \<Rightarrow> string \<Rightarrow> string \<Rightarrow> errno + dir" where
  "symlinkSync w d tgt p =
     (if map_of d p \<noteq> None then Inl EEXIST
      else if \<not> can_symlink w then Inl EPERM
      else Inr (d @ [(p, Symlink (Inside tgt))]))"

text \<open>
  A copy needs a source that resolves and can be read. Onto a name without an entry
  it creates a file; onto a name that has an entry it writes through that entry, with
  the outcome the world gives.
\<close>

definition copyFileSync :: "world \<Rightarrow> dir \<Rightarrow> string \<Rightarrow> string \<Rightarrow> errno + dir" where
  "copyFileSync w d src dst =
     (if \<not> resolves (max_links w) d src then Inl ENOENT
      else if \<not> can_copy w src then Inl EACCES
      else if map_of d dst = None then Inr (d @ [(dst, File)])
      else (case copy_onto w d src dst of
              None \<Rightarrow> Inl EACCES
            | Some d' \<Rightarrow> Inr d'))"

section \<open>install-latex.js\<close>

definition checkExistingLaTeX :: "world \<Rightarrow> bool" where
  "checkExistingLaTeX w = pdflatex_runs w"

definition getTinyTeXBinPath :: "world \<Rightarrow> string" where
  "getTinyTeXBinPath w =
     (if platform w = Win32 then
        path_join w [path_join w [module_dir w, ''.tinytex''], ''bin'', ''windows'']
      else if platform w = Darwin then
        path_join w [path_join w [module_dir w, ''.tinytex''], ''bin'', ''universal-darwin'']
      else
        path_join w [path_join w [module_dir w, ''.tinytex''], ''bin'', ''x86_64-linux''])"

text \<open>\<^verbatim>\<open>fs.existsSync(path.join(binPath, name))\<close> for a name in the vendored directory.\<close>

definition bin_exists :: "world \<Rightarrow> string \<Rightarrow> bool" where
  "bin_exists w name = (case bin w of None \<Rightarrow> False | Some d \<Rightarrow> existsSync w d name)"

definition checkTinyTeXInstalled :: "world \<Rightarrow> bool" where
  "checkTinyTeXInstalled w =
     (if \<not> truthy (getTinyTeXBinPath w) then False
      else bin_exists w (if platform w = Win32 then ''xelatex.exe'' else ''xelatex''))"

subsection \<open>fixTinyTeXSymlinks\<close>

text \<open>
  The state of the first loop is \<open>fixedCount\<close>, the changes made so far and the
  directory. \<open>drop_entry\<close> is the outer \<^verbatim>\<open>catch\<close>: it is entered when
  \<^verbatim>\<open>lstatSync\<close> throws and when the \<^verbatim>\<open>unlinkSync\<close> of a broken link throws.
\<close>

type_synonym sweep = "nat \<times> event list \<times> dir"

definition drop_entry :: "world \<Rightarrow> string \<Rightarrow> sweep \<Rightarrow> sweep" where
  "drop_entry w f s =
     (case s of (fixedCount, evs, d) \<Rightarrow>
        (case unlinkSync w d f of
           Inr d' \<Rightarrow> (fixedCount + 1, evs @ [Unlinked f], d')
         | Inl e2 \<Rightarrow> (fixedCount, evs, d)))"

definition repair_entry :: "world \<Rightarrow> string \<Rightarrow> sweep \<Rightarrow> sweep" where
  "repair_entry w f s =
     (case s of (fixedCount, evs, d) \<Rightarrow>
        (case lstatSync d f of
           Inr stats \<Rightarrow>
             if isSymbolicLink stats then
               (case accessSync w d f of
                  Inr u \<Rightarrow> s
                | Inl e \<Rightarrow>
                   (case unlinkSync w d f of
                      Inr d' \<Rightarrow> (fixedCount + 1, evs @ [Unlinked f], d')
                    | Inl e1 \<Rightarrow> drop_entry w f s))
             else s
         | Inl e \<Rightarrow> drop_entry w f s))"

definition symlinks :: "(string \<times> string) list" where
  "symlinks =
     [(''pdftex'', ''pdflatex''), (''tex'', ''latex''),
      (''luatex'', ''lualatex''), (''xetex'', ''xelatex'')]"

definition link_alias ::
  "world \<Rightarrow> string \<times> string \<Rightarrow> event list \<times> dir \<Rightarrow> event list \<times> dir" where
  "link_alias w p s =
     (case s of (evs, d) \<Rightarrow>
        (let fromPath = exe w (fst p); toPath = exe w (snd p) in
         if existsSync w d fromPath \<and> \<not> existsSync w d toPath then
           (case symlinkSync w d fromPath toPath of
              Inr d' \<Rightarrow> (evs @ [Symlinked fromPath toPath], d')
            | Inl e \<Rightarrow>
               (case copyFileSync w d fromPath toPath of
                  Inr d' \<Rightarrow> (evs @ [Copied fromPath toPath], d')
                | Inl e2 \<Rightarrow> s))
         else s))"

definition fixTinyTeXSymlinks :: "world \<Rightarrow> bool \<times> event list \<times> world" where
  "fixTinyTeXSymlinks w =
     (case bin w of
        None \<Rightarrow> (False, [], w)
      | Some d \<Rightarrow>
         (case fold (repair_entry w) (map fst d) (0, [], d) of
            (fixedCount, evs1, d1) \<Rightarrow>
              (case fold (link_alias w) symlinks
                      (evs1 @ (if fixedCount > 0 then [Stdout (Fixed_symlinks fixedCount)] else []),
                       d1) of
                 (evs2, d2) \<Rightarrow> (True, evs2, w\<lparr>bin := Some d2\<rparr>))))"

subsection \<open>The download progress handler\<close>

text \<open>
  The \<^verbatim>\<open>'data'\<close> handler of \<open>downloadFile\<close>. \<open>totalSize\<close> is the value of
  \<^verbatim>\<open>parseInt\<close> on the content-length header: \<^verbatim>\<open>NaN\<close> when there is no number to
  read, an integer, or an infinity when the digits exceed the range of a double.
  \<open>truthy_number\<close> is the test \<^verbatim>\<open>if (totalSize)\<close>. A chunk is given by its length. The state
  is \<open>downloadedSize\<close>, \<open>lastPercent\<close> and the percentages logged so far. The source
  computes \<^verbatim>\<open>Math.floor((downloadedSize / totalSize) * 100)\<close> in double precision;
  \<open>percent_of\<close> stands for that computation, as a function of the two numbers, and
  is left open. \<open>downloadedSize\<close> is a double as well: its sum is exact as long as it
  stays within \<open>2 ^ 53\<close>.
\<close>

datatype number = NaN | Finite int | Infinity | Minus_Infinity

fun truthy_number :: "number \<Rightarrow> bool" where
  "truthy_number NaN = False"
| "truthy_number (Finite t) = (t \<noteq> 0)"
| "truthy_number Infinity = True"
| "truthy_number Minus_Infinity = True"

type_synonym download = "int \<times> int \<times> int list"

definition on_data :: "(int \<Rightarrow> number \<Rightarrow> int) \<Rightarrow> number \<Rightarrow> nat \<Rightarrow> download \<Rightarrow> download" where
  "on_data percent_of totalSize chunk s =
     (case s of (downloadedSize, lastPercent, logged) \<Rightarrow>
        (let downloadedSize' = downloadedSize + int chunk in
         if truthy_number totalSize
         then
           (let percent = percent_of downloadedSize' totalSize in
            if percent > lastPercent \<and> percent mod 10 = 0
            then (downloadedSize', percent, logged @ [percent])
            else (downloadedSize', lastPercent, logged))
         else (downloadedSize', lastPercent, logged)))"

definition download_progress :: "(int \<Rightarrow> number \<Rightarrow> int) \<Rightarrow> number \<Rightarrow> nat list \<Rightarrow> int list" where
  "download_progress percent_of totalSize chunks =
     (case fold (on_data percent_of totalSize) chunks (0, 0, []) of
        (downloadedSize, lastPercent, logged) \<Rightarrow> logged)"

text \<open>
  For the statements about progress: \<open>percents\<close> is the percentage the handler computes
  after each chunk, starting from \<open>dl\<close> bytes; \<open>progress_from\<close> is what the handler logs
  from a state with \<open>dl\<close> bytes downloaded and \<open>lp\<close> as the last percentage logged;
  \<open>rising\<close> says that the percentage never falls when more bytes have arrived, as
  holds of the double computation for a positive or infinite total (division by a
  positive number, multiplication by 100 and floor are all monotone in doubles);
  \<open>exact_percent\<close> is the percentage in exact arithmetic, which the double
  computation need not agree with (for 201 bytes of 100 it gives 201, the source 200).
\<close>

fun percents :: "(int \<Rightarrow> number \<Rightarrow> int) \<Rightarrow> number \<Rightarrow> int \<Rightarrow> nat list \<Rightarrow> int list" where
  "percents pc t dl [] = []"
| "percents pc t dl (c # cs) = pc (dl + int c) t # percents pc t (dl + int c) cs"

fun progress_from ::
  "(int \<Rightarrow> number \<Rightarrow> int) \<Rightarrow> number \<Rightarrow> int \<Rightarrow> int \<Rightarrow> nat list \<Rightarrow> int list" where
  "progress_from pc t dl lp [] = []"
| "progress_from pc t dl lp (c # cs) =
     (if pc (dl + int c) t > lp \<and> pc (dl + int c) t mod 10 = 0
      then pc (dl + int c) t # progress_from pc t (dl + int c) (pc (dl + int c) t) cs
      else progress_from pc t (dl + int c) lp cs)"

definition rising :: "(int \<Rightarrow> number \<Rightarrow> int) \<Rightarrow> number \<Rightarrow> bool" where
  "rising pc t = (\<forall>a b. 0 \<le> a \<and> a \<le> b \<longrightarrow> pc a t \<le> pc b t)"

fun exact_percent :: "int \<Rightarrow> number \<Rightarrow> int" where
  "exact_percent dl (Finite t) = (dl * 100) div t"
| "exact_percent dl t = 0"

subsection \<open>Installation and the script's entry point\<close>

text \<open>
  \<open>installTinyTeX\<close>: the download and the extraction are one step of the world
  (\<open>fetch\<close>); on success the links are repaired and the result is \<open>True\<close>.
  \<open>install_main\<close> gives the exit status of the script.
\<close>

definition installTinyTeX :: "world \<Rightarrow> bool \<times> event list \<times> world" where
  "installTinyTeX w =
     (let w1 = w\<lparr>bin := snd (fetch w)\<rparr> in
      if fst (fetch w) then
        (case fixTinyTeXSymlinks w1 of
           (r, evs, w2) \<Rightarrow> (True, [Stdout Setup_installing, Fetch_archive] @ evs, w2))
      else (False, [Stdout Setup_installing, Fetch_archive, Stdout Setup_install_error], w1))"

definition install_main :: "world \<Rightarrow> nat \<times> event list \<times> world" where
  "install_main w =
     (let isPostinstall = postinstall w in
      if checkExistingLaTeX w then
        (0, [Stdout Setup_checking, Exec_version, Stdout Setup_found_existing], w)
      else if checkTinyTeXInstalled w then
        (case fixTinyTeXSymlinks w of
           (r, evs, w1) \<Rightarrow>
             (0, [Stdout Setup_checking, Exec_version] @ evs @ [Stdout Setup_already_installed], w1))
      else
        (case installTinyTeX w of
           (success, evs, w1) \<Rightarrow>
             if success then
               (0, [Stdout Setup_checking, Exec_version] @ evs @ [Stdout Setup_installed], w1)
             else if isPostinstall then
               (0, [Stdout Setup_checking, Exec_version] @ evs
                     @ [Stdout Setup_failed, Stdout Setup_nonfatal], w1)
             else
               (1, [Stdout Setup_checking, Exec_version] @ evs @ [Stdout Setup_failed], w1)))"

section \<open>find-latex.js\<close>

definition findSystemLaTeX :: "world \<Rightarrow> string option" where
  "findSystemLaTeX w =
     (case which_pdflatex w of
        None \<Rightarrow> None
      | Some pdflatexPath \<Rightarrow>
          if truthy pdflatexPath then Some (path_dirname w pdflatexPath) else None)"

text \<open>
  \<open>findTinyTeX\<close> builds the path of the vendored directory from its own constant
  \<open>TINYTEX_DIR\<close>; both scripts lie in the same directory, \<open>module_dir\<close>.
\<close>

definition findTinyTeX :: "world \<Rightarrow> string option" where
  "findTinyTeX w =
     (let binPath =
        (if platform w = Win32 then
           path_join w [path_join w [module_dir w, ''.tinytex''], ''bin'', ''windows'']
         else if platform w = Darwin then
           path_join w [path_join w [module_dir w, ''.tinytex''], ''bin'', ''universal-darwin'']
         else
           path_join w [path_join w [module_dir w, ''.tinytex''], ''bin'', ''x86_64-linux''])
      in if bin_exists w (if platform w = Win32 then ''pdflatex.exe'' else ''pdflatex'')
         then Some binPath else None)"

definition getLaTeXPath :: "world \<Rightarrow> (string \<times> origin) option" where
  "getLaTeXPath w =
     (case (case findSystemLaTeX w of
              Some systemPath \<Rightarrow> if truthy systemPath then Some (systemPath, System) else None
            | None \<Rightarrow> None) of
        Some found \<Rightarrow> Some found
      | None \<Rightarrow>
         (case findTinyTeX w of
            Some tinytexPath \<Rightarrow> if truthy tinytexPath then Some (tinytexPath, Tinytex) else None
          | None \<Rightarrow> None))"

definition hasLaTeX :: "world \<Rightarrow> bool" where
  "hasLaTeX w = (getLaTeXPath w \<noteq> None)"

definition getEnginePath :: "world \<Rightarrow> string \<Rightarrow> string option" where
  "getEnginePath w engine =
     (case getLaTeXPath w of
        None \<Rightarrow> None
      | Some latexInfo \<Rightarrow>
          Some (path_join w [fst latexInfo,
                             if platform w = Win32 then engine @ ''.exe'' else engine]))"

section \<open>The command\<close>

text \<open>
  A promise is resolved or rejected with an error message. \<open>convertFile\<close> may also
  call \<^verbatim>\<open>process.exit\<close> before its promise exists: its result is \<open>Inl\<close> of the exit
  status then. The process ends by an exit with a status, by \<open>main\<close> returning, or by
  a rejection of \<open>main\<close> that nothing handles.
\<close>

datatype promise = Resolved | Rejected string

datatype outcome = Exit nat | Returned | Uncaught string

definition runInstallScript :: "world \<Rightarrow> promise \<times> event list \<times> world" where
  "runInstallScript w =
     (case spawn_error w of
        Some err \<Rightarrow> (Rejected err, [Stdout Installing_notice], w)
      | None \<Rightarrow>
         (case install_main w of
            (code, evs, w1) \<Rightarrow>
              (if code = 0 then Resolved else Rejected ''Installation failed'',
               [Stdout Installing_notice, Spawn_install] @ evs, w1)))"

definition ensureLaTeX :: "world \<Rightarrow> bool \<times> event list \<times> world" where
  "ensureLaTeX w =
     (if hasLaTeX w then
        (case fixTinyTeXSymlinks w of (r, evs, w1) \<Rightarrow> (True, [Exec_which] @ evs, w1))
      else
        (case runInstallScript w of
           (Resolved, evs, w1) \<Rightarrow>
             (case fixTinyTeXSymlinks w1 of
                (r, evs2, w2) \<Rightarrow> (hasLaTeX w2, [Exec_which] @ evs @ evs2 @ [Exec_which], w2))
         | (Rejected error, evs, w1) \<Rightarrow>
             (False, [Exec_which] @ evs @ [Stderr Manual_install_hint], w1)))"

definition convertFile ::
  "world \<Rightarrow> string \<Rightarrow> string \<Rightarrow> string \<Rightarrow> (nat + promise) \<times> event list" where
  "convertFile w inputPath outputPath engine =
     (if inputPath \<notin> set (files w) then (Inl 1, [Stderr (File_not_found inputPath)])
      else
        (case (case getEnginePath w engine of
                 Some enginePath \<Rightarrow> if truthy enginePath then Some enginePath else None
               | None \<Rightarrow> None) of
           None \<Rightarrow> (Inl 1, [Exec_which, Stderr (Engine_not_found engine)])
         | Some enginePath \<Rightarrow>
            (case latex w enginePath inputPath of
               None \<Rightarrow>
                 (Inr Resolved,
                  [Exec_which, Stdout (Converting (path_basename w inputPath)),
                   Run_engine enginePath inputPath outputPath, Stdout (Created outputPath)])
             | Some err \<Rightarrow>
                 (Inr (Rejected err),
                  [Exec_which, Stdout (Converting (path_basename w inputPath)),
                   Run_engine enginePath inputPath outputPath]))))"

text \<open>The loop of \<open>main\<close> over the arguments after the first.\<close>

fun parseArgs :: "string list \<Rightarrow> string \<times> string option \<Rightarrow> string + string \<times> string option" where
  "parseArgs [] acc = Inr acc"
| "parseArgs (arg # rest) (engine, outputFile) =
     (if startsWith arg ''--engine='' then parseArgs rest (split_eq_1 arg, outputFile)
      else if startsWith arg ''--'' then Inl arg
      else if (case outputFile of None \<Rightarrow> True | Some out \<Rightarrow> \<not> truthy out)
           then parseArgs rest (engine, Some arg)
      else parseArgs rest (engine, outputFile))"

text \<open>The \<^verbatim>\<open>try\<close> block at the end of \<open>main\<close>.\<close>

definition convert_or_fall_back ::
  "world \<Rightarrow> string \<Rightarrow> string \<Rightarrow> string \<Rightarrow> outcome \<times> event list" where
  "convert_or_fall_back w inputFile outputFile engine =
     (case convertFile w inputFile outputFile engine of
        (Inr Resolved, evs) \<Rightarrow> (Returned, evs)
      | (Inl code, evs) \<Rightarrow> (Exit code, evs)
      | (Inr (Rejected err), evs) \<Rightarrow>
          if engine = ''pdflatex'' \<and> str_includes err ''Font'' then
            (case convertFile w inputFile outputFile ''xelatex'' of
               (Inr Resolved, evs2) \<Rightarrow> (Returned, evs @ [Stdout Trying_xelatex] @ evs2)
             | (Inl code, evs2) \<Rightarrow> (Exit code, evs @ [Stdout Trying_xelatex] @ evs2)
             | (Inr (Rejected fallbackErr), evs2) \<Rightarrow>
                 (Exit 1, evs @ [Stdout Trying_xelatex] @ evs2 @ [Stderr (Failed_both fallbackErr)]))
          else
            (Exit 1,
             evs @ [Stderr (Conversion_failed err)]
                 @ (if str_includes err ''Command failed'' then [Stderr Tip] else [])))"

definition main :: "world \<Rightarrow> string list \<Rightarrow> outcome \<times> event list \<times> world" where
  "main w args =
     (case args of
        [] \<Rightarrow> (Exit 0, [Stdout Usage], w)
      | inputFile # rest \<Rightarrow>
         if ''--help'' \<in> set args \<or> ''-h'' \<in> set args then (Exit 0, [Stdout Usage], w)
         else if ''--install'' \<in> set args then
           (case runInstallScript w of
              (Resolved, evs, w1) \<Rightarrow> (Exit 0, [Stdout Force_installing] @ evs, w1)
            | (Rejected err, evs, w1) \<Rightarrow> (Uncaught err, [Stdout Force_installing] @ evs, w1))
         else
           (case ensureLaTeX w of
              (latexReady, evs, w1) \<Rightarrow>
                if \<not> latexReady then (Exit 1, evs, w1)
                else
                  (case parseArgs rest (''xelatex'', None) of
                     Inl arg \<Rightarrow> (Exit 1, evs @ [Stderr (Unknown_option arg)], w1)
                   | Inr (engine, outputFile) \<Rightarrow>
                      (let out =
                         (case (case outputFile of
                                  Some given \<Rightarrow> if truthy given then Some given else None
                                | None \<Rightarrow> None) of
                            Some given \<Rightarrow> given
                          | None \<Rightarrow>
                              path_join w1
                                [pp_dir (path_parse w1 inputFile),
                                 pp_name (path_parse w1 inputFile) @ ''.pdf''])
                       in case convert_or_fall_back w1 inputFile out engine of
                            (oc, evs2) \<Rightarrow> (oc, evs @ evs2, w1)))))"

text \<open>The engine runs of a trace.\<close>

fun is_run :: "event \<Rightarrow> bool" where
  "is_run (Run_engine cmd inputPath outputPath) = True"
| "is_run e = False"

definition runs :: "event list \<Rightarrow> event list" where
  "runs evs = filter is_run evs"

text \<open>
  A plain instance of the \<^verbatim>\<open>path\<close> functions, for concrete worlds: segments are
  joined by a slash, and an empty result is the dot, as Node does for paths that need
  no normalisation.
\<close>

fun join_segments :: "string list \<Rightarrow> string" where
  "join_segments [] = []"
| "join_segments [x] = x"
| "join_segments (x # y # ys) = (if x = [] then join_segments (y # ys) else x @ ''/'' @ join_segments (y # ys))"

definition plain_join :: "string list \<Rightarrow> string" where
  "plain_join xs =
     (let r = join_segments (filter (\<lambda>x. x \<noteq> []) xs) in if r = [] then ''.'' else r)"

definition plain_base :: "string \<Rightarrow> string" where
  "plain_base p = rev (takeWhile (\<lambda>c. c \<noteq> CHR ''/'') (rev p))"

definition plain_dir :: "string \<Rightarrow> string" where
  "plain_dir p = rev (drop 1 (dropWhile (\<lambda>c. c \<noteq> CHR ''/'') (rev p)))"

definition plain_dirname :: "string \<Rightarrow> string" where
  "plain_dirname p = (if plain_dir p = [] then ''.'' else plain_dir p)"

definition plain_parse :: "string \<Rightarrow> parsed_path" where
  "plain_parse p =
     \<lparr>pp_dir = plain_dir p,
      pp_name =
        (if CHR ''.'' \<in> set (drop 1 (plain_base p))
         then rev (drop 1 (dropWhile (\<lambda>c. c \<noteq> CHR ''.'') (rev (plain_base p))))
         else plain_base p)\<rparr>"

definition join_nonempty :: "world \<Rightarrow> bool" where
  "join_nonempty w = (\<forall>xs. path_join w xs \<noteq> [])"

text \<open>
  Names for the statements about the command: the output path \<open>main\<close> computes when
  none is given; an argument the loop rejects; the absence of the help and install
  flags; the output paths of the engine runs of a trace.
\<close>

definition default_output :: "world \<Rightarrow> string \<Rightarrow> string" where
  "default_output w inputFile =
     path_join w [pp_dir (path_parse w inputFile), pp_name (path_parse w inputFile) @ ''.pdf'']"

definition unknown_flag :: "string \<Rightarrow> bool" where
  "unknown_flag a = (startsWith a ''--'' \<and> \<not> startsWith a ''--engine='')"

definition flags_absent :: "string list \<Rightarrow> bool" where
  "flags_absent args = (''--help'' \<notin> set args \<and> ''-h'' \<notin> set args \<and> ''--install'' \<notin> set args)"

definition run_outputs :: "event list \<Rightarrow> string list" where
  "run_outputs evs =
     map (\<lambda>e. case e of Run_engine cmd inputPath outputPath \<Rightarrow> outputPath | _ \<Rightarrow> []) (runs evs)"

section \<open>Predicates on directories\<close>

text \<open>
  A directory is clean when every entry resolves: no dangling link, no entry that
  cannot be inspected. \<open>deletions_succeed\<close> says that no name whose unlink fails is
  an entry the pass tries to delete. \<open>doomed\<close> is the condition under which the first
  loop removes an entry. An alias is \<open>wanted\<close> when its engine has an entry and the
  alias has none; \<open>in_reach\<close> says that the engine of every wanted alias resolves
  with one link to spare, so that a link onto it resolves too (it matters only where
  links can be made); \<open>tidy\<close> combines the two. A pair is \<open>quiet\<close> when the second loop
  does nothing for it, and \<open>alias_entry\<close> is the entry of the alias after the second
  loop. \<open>links_in_reach\<close> is \<open>in_reach\<close> in terms of what exists before the pass.
  \<open>broken_links\<close> lists the dangling links. \<open>apart\<close>: no engine name is an alias name.
\<close>

definition clean :: "world \<Rightarrow> dir \<Rightarrow> bool" where
  "clean w d = (\<forall>n. map_of d n \<noteq> None \<longrightarrow> resolves (max_links w) d n)"

definition deletions_succeed :: "world \<Rightarrow> dir \<Rightarrow> bool" where
  "deletions_succeed w d =
     list_all (\<lambda>n. map_of d n = None \<or> resolves (max_links w) d n) (undeletable w)"

definition spare :: "world \<Rightarrow> dir \<Rightarrow> string \<Rightarrow> bool" where
  "spare w d n = (0 < max_links w \<and> resolves (max_links w - 1) d n)"

definition links_in_reach :: "world \<Rightarrow> dir \<Rightarrow> bool" where
  "links_in_reach w d =
     (can_symlink w \<longrightarrow>
      list_all (\<lambda>p. existsSync w d (exe w (fst p)) \<and> \<not> existsSync w d (exe w (snd p)) \<longrightarrow>
                    spare w d (exe w (fst p))) symlinks)"

definition doomed :: "world \<Rightarrow> dir \<Rightarrow> string \<Rightarrow> bool" where
  "doomed w d f =
     (map_of d f \<noteq> None \<and> \<not> resolves (max_links w) d f \<and> f \<notin> set (undeletable w))"

definition wanted :: "world \<Rightarrow> dir \<Rightarrow> string \<times> string \<Rightarrow> bool" where
  "wanted w d p = (map_of d (exe w (fst p)) \<noteq> None \<and> map_of d (exe w (snd p)) = None)"

definition in_reach :: "world \<Rightarrow> (string \<times> string) list \<Rightarrow> dir \<Rightarrow> bool" where
  "in_reach w ps d =
     (can_symlink w \<longrightarrow> (\<forall>p \<in> set ps. wanted w d p \<longrightarrow> spare w d (exe w (fst p))))"

definition tidy :: "world \<Rightarrow> (string \<times> string) list \<Rightarrow> dir \<Rightarrow> bool" where
  "tidy w ps d = (clean w d \<and> in_reach w ps d)"

definition apart :: "world \<Rightarrow> (string \<times> string) list \<Rightarrow> bool" where
  "apart w ps = (\<forall>p \<in> set ps. \<forall>q \<in> set ps. exe w (fst p) \<noteq> exe w (snd q))"

definition quiet :: "world \<Rightarrow> dir \<Rightarrow> string \<times> string \<Rightarrow> bool" where
  "quiet w d p = (wanted w d p \<longrightarrow> \<not> can_symlink w \<and> \<not> can_copy w (exe w (fst p)))"

definition broken :: "world \<Rightarrow> dir \<Rightarrow> string \<Rightarrow> bool" where
  "broken w d n =
     (case map_of d n of Some (Symlink t) \<Rightarrow> \<not> resolves (max_links w) d n | _ \<Rightarrow> False)"

definition broken_links :: "world \<Rightarrow> dir \<Rightarrow> string list" where
  "broken_links w d = filter (broken w d) (map fst d)"

definition alias_entry :: "world \<Rightarrow> dir \<Rightarrow> string \<times> string \<Rightarrow> node option" where
  "alias_entry w d p =
     (if wanted w d p then
        (if can_symlink w then Some (Symlink (Inside (exe w (fst p))))
         else if can_copy w (exe w (fst p)) then Some File else None)
      else map_of d (exe w (snd p)))"

text \<open>Two worlds that differ at most in the vendored directory.\<close>

definition differs_in_bin :: "world \<Rightarrow> world \<Rightarrow> bool" where
  "differs_in_bin w w' = (\<exists>b. w' = w\<lparr>bin := b\<rparr>)"

section \<open>Concrete worlds\<close>

text \<open>
  \<open>bare_world\<close>: a Linux host with no LaTeX anywhere, no vendored directory, one user
  file, and a download that fails. The other worlds change a few fields of it.
\<close>

definition bare_world :: world where
  "bare_world =
     \<lparr>platform = Other, bin = None, max_links = 40, undeletable = [], can_symlink = True,
      can_copy = (\<lambda>src. True), copy_onto = (\<lambda>d src dst. None),
      which_pdflatex = None, pdflatex_runs = False, module_dir = ''/opt/tex2pdf'',
      path_join = plain_join, path_dirname = plain_dirname, path_basename = plain_base,
      path_parse = plain_parse, files = [''doc.tex''],
      latex = (\<lambda>cmd inputPath. None), fetch = (False, None), spawn_error = None,
      postinstall = False\<rparr>"

text \<open>
  A vendored directory in which two dangling links cannot be unlinked: \<open>pdftex\<close>
  points at the alias name \<open>latex\<close>, \<open>stale\<close> points outside.
\<close>

definition sticky_world :: world where
  "sticky_world =
     bare_world
       \<lparr>bin := Some [(''pdftex'', Symlink (Inside ''latex'')), (''tex'', File),
                     (''stale'', Symlink (Outside None))],
        undeletable := [''pdftex'', ''stale'']\<rparr>"

text \<open>
  A freshly extracted directory: engines under their own names, a dangling link, a
  cycle of two links and an entry that cannot be inspected; every deletion succeeds.
\<close>

definition fresh_dir :: dir where
  "fresh_dir =
     [(''pdftex'', File), (''xetex'', File), (''xelatex'', Symlink (Inside ''xetex'')),
      (''stale'', Symlink (Outside None)), (''ping'', Symlink (Inside ''pong'')),
      (''pong'', Symlink (Inside ''ping'')), (''odd'', Unreadable)]"

definition fresh_world :: world where
  "fresh_world = bare_world\<lparr>bin := Some fresh_dir\<rparr>"

text \<open>A directory with one engine where neither a link nor a copy can be made.\<close>

definition readonly_world :: world where
  "readonly_world =
     bare_world\<lparr>bin := Some [(''pdftex'', File)], can_symlink := False,
                can_copy := (\<lambda>src. False)\<rparr>"

text \<open>
  A directory where the dangling link \<open>luatex\<close> points at the alias name \<open>latex\<close> and
  cannot be unlinked.
\<close>

definition late_dir :: dir where
  "late_dir = [(''luatex'', Symlink (Inside ''latex'')), (''tex'', File)]"

definition late_world :: world where
  "late_world = bare_world\<lparr>bin := Some late_dir, undeletable := [''luatex'']\<rparr>"

text \<open>
  A directory where \<open>pdftex\<close> heads a chain of exactly forty links that ends at a file:
  \<open>pdftex\<close> is a link that leaves the directory, and thirty-nine further links follow
  before the file is reached. Every deletion succeeds.
\<close>

definition deep_dir :: dir where
  "deep_dir = [(''pdftex'', Symlink (Outside (Some 39)))]"

definition deep_world :: world where
  "deep_world = bare_world\<lparr>bin := Some deep_dir\<rparr>"

text \<open>
  A host with a system LaTeX on the search path; the same host where every engine run
  fails on a font; the same host where only \<open>pdflatex\<close> fails on a font.
\<close>

definition tex_world :: world where
  "tex_world =
     bare_world\<lparr>which_pdflatex := Some ''/usr/bin/pdflatex'', pdflatex_runs := True,
                files := [''doc.tex'', ''paper/doc.tex'']\<rparr>"

definition font_world :: world where
  "font_world = tex_world\<lparr>latex := (\<lambda>cmd inputPath. Some ''Font cmr10 not found'')\<rparr>"

definition pdflatex_font_world :: world where
  "pdflatex_font_world =
     tex_world\<lparr>latex := (\<lambda>cmd inputPath.
        if cmd = ''/usr/bin/pdflatex'' then Some ''Font cmr10 not found'' else None)\<rparr>"

text \<open>A host with no LaTeX where the download succeeds and unpacks two engines.\<close>

definition install_world :: world where
  "install_world = bare_world\<lparr>fetch := (True, Some [(''pdftex'', File), (''xetex'', File)])\<rparr>"

text \<open>Vendored directories that hold only one of the two probed binaries.\<close>

definition only_xelatex_world :: world where
  "only_xelatex_world = bare_world\<lparr>bin := Some [(''xelatex'', File)]\<rparr>"

definition only_pdflatex_world :: world where
  "only_pdflatex_world = bare_world\<lparr>bin := Some [(''pdflatex'', File)]\<rparr>"

section \<open>Properties of link resolution\<close>

lemma resolves_0: "resolves 0 d n = (map_of d n = Some File)"
  by (simp add: resolves.simps split: option.splits node.splits)

lemma resolves_Suc:
  "resolves (Suc j) d n =
     (case map_of d n of
        None \<Rightarrow> False
      | Some File \<Rightarrow> True
      | Some Unreadable \<Rightarrow> False
      | Some (Symlink (Outside None)) \<Rightarrow> False
      | Some (Symlink (Outside (Some further))) \<Rightarrow> further \<le> j
      | Some (Symlink (Inside m)) \<Rightarrow> resolves j d m)"
  by (simp add: resolves.simps[of "Suc j"] split: option.splits node.splits target.splits)

lemma resolves_present: "resolves k d n \<Longrightarrow> map_of d n \<noteq> None"
  by (subst (asm) resolves.simps) (auto split: option.splits)

lemma resolves_absent: "map_of d n = None \<Longrightarrow> \<not> resolves k d n"
  using resolves_present by blast

lemma resolves_file: "map_of d n = Some File \<Longrightarrow> resolves k d n"
  by (subst resolves.simps) simp

lemma resolves_unreadable: "map_of d n = Some Unreadable \<Longrightarrow> \<not> resolves k d n"
  by (subst resolves.simps) simp

lemma map_le_Some: "m \<subseteq>\<^sub>m m' \<Longrightarrow> m a = Some b \<Longrightarrow> m' a = Some b"
  by (auto simp: map_le_def dom_def)

text \<open>More entries resolve no less.\<close>

lemma resolves_mono:
  "resolves k d n \<Longrightarrow> map_of d \<subseteq>\<^sub>m map_of d' \<Longrightarrow> resolves k d' n"
proof (induction k arbitrary: n)
  case 0
  then show ?case by (auto simp: resolves_0 dest: map_le_Some)
next
  case (Suc j)
  from Suc.prems(1) obtain x where x: "map_of d n = Some x"
    using resolves_present by fastforce
  have x': "map_of d' n = Some x" by (rule map_le_Some[OF Suc.prems(2) x])
  show ?case
  proof (cases x)
    case File
    with x' show ?thesis by (simp add: resolves_file)
  next
    case Unreadable
    with x Suc.prems(1) show ?thesis by (simp add: resolves_unreadable)
  next
    case (Symlink t)
    show ?thesis
    proof (cases t)
      case (Outside a)
      with Symlink x x' Suc.prems(1) show ?thesis by (simp add: resolves_Suc)
    next
      case (Inside m)
      with Symlink x Suc.prems(1) have "resolves j d m" by (simp add: resolves_Suc)
      from Suc.IH[OF this Suc.prems(2)] Symlink Inside x' show ?thesis
        by (simp add: resolves_Suc)
    qed
  qed
qed

text \<open>A larger budget resolves no less.\<close>

lemma resolves_budget: "resolves k d n \<Longrightarrow> k \<le> k' \<Longrightarrow> resolves k' d n"
proof (induction k arbitrary: n k')
  case 0
  then show ?case by (simp add: resolves_0 resolves_file)
next
  case (Suc j)
  from Suc.prems(2) obtain j' where k': "k' = Suc j'" and le: "j \<le> j'"
    by (cases k') auto
  from Suc.prems(1) obtain x where x: "map_of d n = Some x"
    using resolves_present by fastforce
  show ?case
  proof (cases x)
    case File
    with x show ?thesis by (simp add: resolves_file)
  next
    case Unreadable
    with x Suc.prems(1) show ?thesis by (simp add: resolves_unreadable)
  next
    case (Symlink t)
    show ?thesis
    proof (cases t)
      case (Outside a)
      with Symlink x Suc.prems(1) le show ?thesis
        by (cases a) (simp_all add: resolves_Suc k')
    next
      case (Inside m)
      with Symlink x Suc.prems(1) have "resolves j d m" by (simp add: resolves_Suc)
      from Suc.IH[OF this le] Symlink Inside x show ?thesis
        by (simp add: resolves_Suc k')
    qed
  qed
qed

text \<open>Deleting a name that does not resolve changes nothing for the other names.\<close>

lemma resolves_delete_dangling:
  assumes "\<not> resolves K d x"
  shows "k \<le> K \<Longrightarrow> resolves k (AList.delete x d) n = resolves k d n"
proof (induction k arbitrary: n)
  case 0
  show ?case
  proof (cases "n = x")
    case True
    have "\<not> resolves 0 d x" using assms resolves_budget[of 0 d x K] by blast
    with True show ?thesis by (simp add: resolves_0 AList.delete_conv')
  next
    case False
    then show ?thesis by (simp add: resolves_0)
  qed
next
  case (Suc j)
  show ?case
  proof (cases "n = x")
    case True
    have "\<not> resolves (Suc j) d x" using assms resolves_budget[OF _ Suc.prems] by blast
    moreover have "\<not> resolves (Suc j) (AList.delete x d) x"
      by (rule resolves_absent) (simp add: AList.delete_conv')
    ultimately show ?thesis using True by simp
  next
    case False
    have "j \<le> K" using Suc.prems by simp
    from Suc.IH[OF this] False show ?thesis
      by (simp add: resolves_Suc split: option.splits node.splits target.splits)
  qed
qed

section \<open>The repair pass\<close>

lemma repair_entry_eq:
  "repair_entry w f (c, evs, d) =
     (if doomed w d f
      then (c + 1, evs @ [Unlinked f], AList.delete f d) else (c, evs, d))"
proof (cases "map_of d f")
  case None
  then show ?thesis
    by (simp add: doomed_def repair_entry_def drop_entry_def lstatSync_def unlinkSync_def)
next
  case (Some x)
  show ?thesis
  proof (cases x)
    case File
    with Some have "resolves (max_links w) d f" by (simp add: resolves_file)
    with Some File show ?thesis
      by (simp add: doomed_def repair_entry_def lstatSync_def)
  next
    case Unreadable
    with Some have "\<not> resolves (max_links w) d f" by (simp add: resolves_unreadable)
    with Some Unreadable show ?thesis
      by (simp add: doomed_def repair_entry_def drop_entry_def lstatSync_def unlinkSync_def)
  next
    case (Symlink t)
    with Some show ?thesis
      by (simp add: doomed_def repair_entry_def drop_entry_def lstatSync_def unlinkSync_def
          accessSync_def)
  qed
qed

lemma sweep_preserves:
  "fold (repair_entry w) fs (c, evs, d) = (c', evs', d') \<Longrightarrow>
     (\<forall>k n. k \<le> max_links w \<longrightarrow> resolves k d' n = resolves k d n) \<and>
     (\<forall>n. map_of d' n = map_of d n \<or> (map_of d' n = None \<and> \<not> resolves (max_links w) d n))"
proof (induction fs arbitrary: c evs d)
  case Nil
  then show ?case by simp
next
  case (Cons f fs)
  show ?case
  proof (cases "doomed w d f")
    case False
    with Cons.prems have "fold (repair_entry w) fs (c, evs, d) = (c', evs', d')"
      by (simp add: repair_entry_eq)
    from Cons.IH[OF this] show ?thesis .
  next
    case True
    with Cons.prems
    have "fold (repair_entry w) fs (c + 1, evs @ [Unlinked f], AList.delete f d) = (c', evs', d')"
      by (simp add: repair_entry_eq)
    from Cons.IH[OF this]
    have r: "\<forall>k n. k \<le> max_links w \<longrightarrow> resolves k d' n = resolves k (AList.delete f d) n"
      and m: "\<forall>n. map_of d' n = map_of (AList.delete f d) n \<or>
                 (map_of d' n = None \<and> \<not> resolves (max_links w) (AList.delete f d) n)"
      by blast+
    from True have nf: "\<not> resolves (max_links w) d f" by (simp add: doomed_def)
    have r': "\<forall>k n. k \<le> max_links w \<longrightarrow> resolves k d' n = resolves k d n"
      using r resolves_delete_dangling[OF nf] by simp
    have "map_of d' n = map_of d n \<or> (map_of d' n = None \<and> \<not> resolves (max_links w) d n)" for n
    proof (cases "n = f")
      case True
      with m[rule_format, of f] have "map_of d' n = None" by (auto simp: AList.delete_conv')
      with True nf show ?thesis by simp
    next
      case False
      with m[rule_format, of n] resolves_delete_dangling[OF nf, of "max_links w" n]
      show ?thesis by auto
    qed
    with r' show ?thesis by blast
  qed
qed

lemma deletions_succeed_step:
  assumes "deletions_succeed w d" "\<not> resolves (max_links w) d f"
  shows "deletions_succeed w (AList.delete f d)"
  using assms resolves_delete_dangling[OF assms(2), of "max_links w"]
  by (auto simp: deletions_succeed_def list_all_iff AList.delete_conv')

lemma sweep_cleans:
  "fold (repair_entry w) fs (c, evs, d) = (c', evs', d') \<Longrightarrow> deletions_succeed w d \<Longrightarrow>
     (\<forall>f \<in> set fs. map_of d' f = None \<or> resolves (max_links w) d' f)"
proof (induction fs arbitrary: c evs d)
  case Nil
  then show ?case by simp
next
  case (Cons f fs)
  obtain c1 evs1 d1 where step: "repair_entry w f (c, evs, d) = (c1, evs1, d1)"
    by (cases "repair_entry w f (c, evs, d)") auto
  with Cons.prems(1) have rest: "fold (repair_entry w) fs (c1, evs1, d1) = (c', evs', d')"
    by simp
  have ds1: "deletions_succeed w d1"
    using step Cons.prems(2) deletions_succeed_step[of w d f]
    by (auto simp: repair_entry_eq doomed_def split: if_splits)
  from Cons.IH[OF rest ds1]
  have tl: "\<forall>g \<in> set fs. map_of d' g = None \<or> resolves (max_links w) d' g" .
  from sweep_preserves[OF rest]
  have r: "resolves (max_links w) d' f = resolves (max_links w) d1 f"
    and m: "\<forall>n. map_of d' n = map_of d1 n \<or>
              (map_of d' n = None \<and> \<not> resolves (max_links w) d1 n)"
    by simp_all
  have und: "f \<in> set (undeletable w) \<Longrightarrow> map_of d f = None \<or> resolves (max_links w) d f"
    using Cons.prems(2) by (auto simp: deletions_succeed_def list_all_iff)
  have "map_of d1 f = None \<or> resolves (max_links w) d1 f"
    using step und by (auto simp: repair_entry_eq doomed_def AList.delete_conv' split: if_splits)
  with r m[rule_format, of f] have "map_of d' f = None \<or> resolves (max_links w) d' f" by auto
  with tl show ?case by simp
qed

lemma map_of_None_iff: "map_of d n = None \<longleftrightarrow> n \<notin> fst ` set d"
  by (simp add: map_of_eq_None_iff)

lemma sweep_clean:
  assumes "fold (repair_entry w) (map fst d) (c, evs, d) = (c', evs', d')"
    and "deletions_succeed w d"
  shows "clean w d'"
  unfolding clean_def
proof (intro allI impI)
  fix n assume n: "map_of d' n \<noteq> None"
  from sweep_preserves[OF assms(1)] n have "map_of d n \<noteq> None" by metis
  then have "n \<in> set (map fst d)" by (simp add: map_of_None_iff)
  with sweep_cleans[OF assms] n show "resolves (max_links w) d' n" by auto
qed

lemma sweep_idle:
  "clean w d \<Longrightarrow> fold (repair_entry w) fs (c, evs, d) = (c, evs, d)"
  by (induction fs) (auto simp: repair_entry_eq clean_def doomed_def)

lemma sweep_result:
  assumes "fold (repair_entry w) (map fst d) (c, evs, d) = (c', evs', d')"
    and "deletions_succeed w d"
  shows "map_of d' n = (if resolves (max_links w) d n then map_of d n else None)"
proof -
  have c: "clean w d'" by (rule sweep_clean[OF assms])
  from sweep_preserves[OF assms(1)]
  have r: "resolves (max_links w) d' n = resolves (max_links w) d n"
    and m: "map_of d' n = map_of d n \<or> (map_of d' n = None \<and> \<not> resolves (max_links w) d n)"
    by simp_all
  show ?thesis
  proof (cases "resolves (max_links w) d n")
    case True
    with m show ?thesis by auto
  next
    case False
    with r have "\<not> resolves (max_links w) d' n" by simp
    with c have "map_of d' n = None" by (auto simp: clean_def)
    with False show ?thesis by simp
  qed
qed

lemma sweep_events:
  "fold (repair_entry w) fs (c, evs, d) = (c', evs', d') \<Longrightarrow> deletions_succeed w d \<Longrightarrow>
     set evs \<subseteq> set evs' \<and>
     (\<forall>f \<in> set fs. map_of d f \<noteq> None \<and> \<not> resolves (max_links w) d f \<longrightarrow>
        Unlinked f \<in> set evs')"
proof (induction fs arbitrary: c evs d)
  case Nil
  then show ?case by simp
next
  case (Cons f fs)
  obtain c1 evs1 d1 where step: "repair_entry w f (c, evs, d) = (c1, evs1, d1)"
    by (cases "repair_entry w f (c, evs, d)") auto
  with Cons.prems(1) have rest: "fold (repair_entry w) fs (c1, evs1, d1) = (c', evs', d')"
    by simp
  have ds1: "deletions_succeed w d1"
    using step Cons.prems(2) deletions_succeed_step[of w d f]
    by (auto simp: repair_entry_eq doomed_def split: if_splits)
  from Cons.IH[OF rest ds1]
  have sub: "set evs1 \<subseteq> set evs'"
    and tl: "\<forall>g \<in> set fs. map_of d1 g \<noteq> None \<and> \<not> resolves (max_links w) d1 g \<longrightarrow>
               Unlinked g \<in> set evs'"
    by blast+
  have und: "f \<in> set (undeletable w) \<Longrightarrow> map_of d f = None \<or> resolves (max_links w) d f"
    using Cons.prems(2) by (auto simp: deletions_succeed_def list_all_iff)
  have e0: "set evs \<subseteq> set evs1"
    using step by (auto simp: repair_entry_eq split: if_splits)
  have hd: "map_of d f \<noteq> None \<and> \<not> resolves (max_links w) d f \<longrightarrow> Unlinked f \<in> set evs1"
    using step und by (auto simp: repair_entry_eq doomed_def split: if_splits)
  have "map_of d g \<noteq> None \<and> \<not> resolves (max_links w) d g \<longrightarrow> Unlinked g \<in> set evs'"
    if g: "g \<in> set fs" for g
  proof (cases "g = f")
    case True
    with hd sub show ?thesis by auto
  next
    case False
    show ?thesis
    proof (cases "doomed w d f")
      case True
      then have nf: "\<not> resolves (max_links w) d f" by (simp add: doomed_def)
      from True step have "d1 = AList.delete f d" by (simp add: repair_entry_eq)
      with False resolves_delete_dangling[OF nf, of "max_links w" g] tl g show ?thesis by auto
    next
      case False
      with step have "d1 = d" by (simp add: repair_entry_eq)
      with tl g show ?thesis by auto
    qed
  qed
  with hd sub e0 show ?case by auto
qed

lemma broken_linksD:
  "n \<in> set (broken_links w d) \<Longrightarrow>
     map_of d n \<noteq> None \<and> \<not> resolves (max_links w) d n \<and> n \<in> set (map fst d)"
  by (auto simp: broken_links_def broken_def split: option.splits node.splits)

lemma clean_no_broken: "clean w d \<Longrightarrow> broken_links w d = []"
  by (auto simp: broken_links_def broken_def clean_def filter_empty_conv
      split: option.splits node.splits)

lemma clean_present: "clean w d \<Longrightarrow> resolves (max_links w) d n = (map_of d n \<noteq> None)"
  using resolves_present by (auto simp: clean_def)

lemma link_alias_eq:
  assumes "clean w d"
  shows "link_alias w p (evs, d) =
     (if wanted w d p then
        (if can_symlink w then
           (evs @ [Symlinked (exe w (fst p)) (exe w (snd p))],
            d @ [(exe w (snd p), Symlink (Inside (exe w (fst p))))])
         else if can_copy w (exe w (fst p)) then
           (evs @ [Copied (exe w (fst p)) (exe w (snd p))], d @ [(exe w (snd p), File)])
         else (evs, d))
      else (evs, d))"
  by (simp add: link_alias_def existsSync_def clean_present[OF assms] wanted_def
      symlinkSync_def copyFileSync_def Let_def)

lemma map_le_append_new: "map_of d n = None \<Longrightarrow> map_of d \<subseteq>\<^sub>m map_of (d @ [(n, x)])"
  by (auto simp: map_le_def map_add_def dom_def split: option.splits)

lemma clean_add_file:
  assumes "clean w d" "map_of d n = None"
  shows "clean w (d @ [(n, File)])"
  unfolding clean_def
proof (intro allI impI)
  fix k assume k: "map_of (d @ [(n, File)]) k \<noteq> None"
  show "resolves (max_links w) (d @ [(n, File)]) k"
  proof (cases "map_of d k")
    case None
    with k have "k = n" by (auto simp: map_add_def split: if_splits)
    with assms(2) show ?thesis by (intro resolves_file) (simp add: map_add_def)
  next
    case (Some x)
    with assms(1) have "resolves (max_links w) d k" by (simp add: clean_def)
    then show ?thesis using map_le_append_new[OF assms(2)] by (rule resolves_mono)
  qed
qed

lemma clean_add_link:
  assumes "clean w d" "map_of d n = None" "spare w d m"
  shows "clean w (d @ [(n, Symlink (Inside m))])"
  unfolding clean_def
proof (intro allI impI)
  let ?d = "d @ [(n, Symlink (Inside m))]"
  fix k assume k: "map_of ?d k \<noteq> None"
  have le: "map_of d \<subseteq>\<^sub>m map_of ?d" by (rule map_le_append_new[OF assms(2)])
  show "resolves (max_links w) ?d k"
  proof (cases "map_of d k")
    case None
    with k have kn: "k = n" by (auto simp: map_add_def split: if_splits)
    from assms(3) obtain j where j: "max_links w = Suc j" and r: "resolves j d m"
      by (cases "max_links w") (auto simp: spare_def)
    from r le have "resolves j ?d m" by (rule resolves_mono)
    with assms(2) kn j show ?thesis by (simp add: resolves_Suc map_add_def)
  next
    case (Some x)
    with assms(1) have "resolves (max_links w) d k" by (simp add: clean_def)
    then show ?thesis using le by (rule resolves_mono)
  qed
qed

lemma link_alias_map:
  assumes "clean w d" "link_alias w p (evs, d) = (evs', d')"
  shows "map_of d' n = map_of d n \<or>
         (n = exe w (snd p) \<and> map_of d n = None \<and> map_of d' n \<noteq> None)"
  using assms
  by (auto simp: link_alias_eq wanted_def map_add_def split: if_splits option.splits)

lemma link_alias_le:
  assumes "clean w d" "link_alias w p (evs, d) = (evs', d')"
  shows "map_of d \<subseteq>\<^sub>m map_of d'"
  using assms map_le_append_new[of d "exe w (snd p)"]
  by (auto simp: link_alias_eq wanted_def split: if_splits)

lemma link_alias_clean:
  assumes "tidy w ps d" "p \<in> set ps" "link_alias w p (evs, d) = (evs', d')"
  shows "clean w d'"
proof -
  from assms(1) have c: "clean w d" by (simp add: tidy_def)
  show ?thesis
  proof (cases "wanted w d p")
    case False
    with assms(3) c show ?thesis by (simp add: link_alias_eq)
  next
    case True
    then have absent: "map_of d (exe w (snd p)) = None" by (simp add: wanted_def)
    show ?thesis
    proof (cases "can_symlink w")
      case True
      with assms(1,2) \<open>wanted w d p\<close> have "spare w d (exe w (fst p))"
        by (auto simp: tidy_def in_reach_def)
      from clean_add_link[OF c absent this] assms(3) True \<open>wanted w d p\<close> c
      show ?thesis by (simp add: link_alias_eq)
    next
      case False
      with clean_add_file[OF c absent] assms(3) \<open>wanted w d p\<close> c
      show ?thesis by (auto simp: link_alias_eq split: if_splits)
    qed
  qed
qed

lemma link_alias_tidy:
  assumes "tidy w ps d" "apart w ps" "q \<in> set ps" "link_alias w q (evs, d) = (evs', d')"
  shows "tidy w ps d'"
proof -
  from assms(1) have c: "clean w d" by (simp add: tidy_def)
  have c': "clean w d'" by (rule link_alias_clean[OF assms(1,3,4)])
  have le: "map_of d \<subseteq>\<^sub>m map_of d'" by (rule link_alias_le[OF c assms(4)])
  have "spare w d' (exe w (fst p))" if s: "can_symlink w" and p: "p \<in> set ps"
    and wn: "wanted w d' p" for p
  proof -
    have ne: "exe w (fst p) \<noteq> exe w (snd q)" using assms(2,3) p by (simp add: apart_def)
    have a: "map_of d' (exe w (fst p)) = map_of d (exe w (fst p))"
      using link_alias_map[OF c assms(4), of "exe w (fst p)"] ne by auto
    have b: "map_of d (exe w (snd p)) = None"
      using link_alias_map[OF c assms(4), of "exe w (snd p)"] wn by (auto simp: wanted_def)
    from a b wn have "wanted w d p" by (simp add: wanted_def)
    with assms(1) s p have "spare w d (exe w (fst p))" by (auto simp: tidy_def in_reach_def)
    then show ?thesis using resolves_mono[OF _ le] by (auto simp: spare_def)
  qed
  with c' show ?thesis by (auto simp: tidy_def in_reach_def)
qed

lemma aliases_tidy:
  "tidy w ps d \<Longrightarrow> apart w ps \<Longrightarrow> set qs \<subseteq> set ps \<Longrightarrow>
   fold (link_alias w) qs (evs, d) = (evs', d') \<Longrightarrow> tidy w ps d'"
proof (induction qs arbitrary: evs d)
  case Nil
  then show ?case by simp
next
  case (Cons q qs)
  obtain e1 d1 where s: "link_alias w q (evs, d) = (e1, d1)"
    by (cases "link_alias w q (evs, d)") auto
  have qin: "q \<in> set ps" using Cons.prems(3) by simp
  have t1: "tidy w ps d1" by (rule link_alias_tidy[OF Cons.prems(1,2) qin s])
  from Cons.IH[OF t1 Cons.prems(2), of e1] Cons.prems(3,4) s show ?case by simp
qed

lemma link_alias_quiet:
  "clean w d \<Longrightarrow> quiet w d p \<Longrightarrow> link_alias w p (evs, d) = (evs, d)"
  by (auto simp: link_alias_eq quiet_def)

lemma quiet_after_own:
  assumes "clean w d" "link_alias w p (evs, d) = (evs', d')"
  shows "quiet w d' p"
  using assms
  by (auto simp: link_alias_eq quiet_def wanted_def map_add_def split: if_splits)

lemma quiet_after_other:
  assumes "clean w d" "link_alias w q (evs, d) = (evs', d')" "quiet w d p"
    and "exe w (fst p) \<noteq> exe w (snd q)"
  shows "quiet w d' p"
proof -
  have a: "map_of d' (exe w (fst p)) = map_of d (exe w (fst p))"
    using link_alias_map[OF assms(1,2), of "exe w (fst p)"] assms(4) by auto
  have b: "map_of d' (exe w (snd p)) = None \<Longrightarrow> map_of d (exe w (snd p)) = None"
    using link_alias_map[OF assms(1,2), of "exe w (snd p)"] by auto
  from a b assms(3) show ?thesis by (auto simp: quiet_def wanted_def)
qed

lemma quiet_kept:
  "tidy w ps d \<Longrightarrow> apart w ps \<Longrightarrow> set qs \<subseteq> set ps \<Longrightarrow> p \<in> set ps \<Longrightarrow>
   fold (link_alias w) qs (evs, d) = (evs', d') \<Longrightarrow> quiet w d p \<Longrightarrow> quiet w d' p"
proof (induction qs arbitrary: evs d)
  case Nil
  then show ?case by simp
next
  case (Cons q qs)
  obtain e1 d1 where s: "link_alias w q (evs, d) = (e1, d1)"
    by (cases "link_alias w q (evs, d)") auto
  have qin: "q \<in> set ps" using Cons.prems(3) by simp
  have c: "clean w d" using Cons.prems(1) by (simp add: tidy_def)
  have t1: "tidy w ps d1" by (rule link_alias_tidy[OF Cons.prems(1,2) qin s])
  have ne: "exe w (fst p) \<noteq> exe w (snd q)"
    using Cons.prems(2,4) qin by (simp add: apart_def)
  have q1: "quiet w d1 p" by (rule quiet_after_other[OF c s Cons.prems(6) ne])
  from Cons.IH[OF t1 Cons.prems(2) _ Cons.prems(4) _ q1, of e1] Cons.prems(3,5) s
  show ?case by simp
qed

lemma aliases_settle:
  "tidy w ps d \<Longrightarrow> apart w ps \<Longrightarrow> set qs \<subseteq> set ps \<Longrightarrow>
   fold (link_alias w) qs (evs, d) = (evs', d') \<Longrightarrow> \<forall>p \<in> set qs. quiet w d' p"
proof (induction qs arbitrary: evs d)
  case Nil
  then show ?case by simp
next
  case (Cons p qs)
  obtain e1 d1 where s: "link_alias w p (evs, d) = (e1, d1)"
    by (cases "link_alias w p (evs, d)") auto
  have pin: "p \<in> set ps" and sub: "set qs \<subseteq> set ps" using Cons.prems(3) by simp_all
  have c: "clean w d" using Cons.prems(1) by (simp add: tidy_def)
  have t1: "tidy w ps d1" by (rule link_alias_tidy[OF Cons.prems(1,2) pin s])
  have rest: "fold (link_alias w) qs (e1, d1) = (evs', d')"
    using Cons.prems(4) s by simp
  have own: "quiet w d1 p" by (rule quiet_after_own[OF c s])
  have "quiet w d' p" by (rule quiet_kept[OF t1 Cons.prems(2) sub pin rest own])
  moreover have "\<forall>r \<in> set qs. quiet w d' r"
    by (rule Cons.IH[OF t1 Cons.prems(2) sub rest])
  ultimately show ?case by simp
qed

lemma aliases_idle:
  "clean w d \<Longrightarrow> \<forall>p \<in> set ps. quiet w d p \<Longrightarrow> fold (link_alias w) ps (evs, d) = (evs, d)"
  by (induction ps) (auto simp: link_alias_quiet)

lemma aliases_events:
  "fold (link_alias w) ps (evs, d) = (evs', d') \<Longrightarrow> set evs \<subseteq> set evs'"
proof (induction ps arbitrary: evs d)
  case Nil
  then show ?case by simp
next
  case (Cons p ps)
  obtain e1 d1 where s: "link_alias w p (evs, d) = (e1, d1)"
    by (cases "link_alias w p (evs, d)") auto
  have "set evs \<subseteq> set e1"
    using s by (auto simp: link_alias_def Let_def split: if_splits sum.splits)
  with Cons.IH[of e1 d1] Cons.prems s show ?case by auto
qed

lemma aliases_untouched:
  "tidy w ps d \<Longrightarrow> apart w ps \<Longrightarrow> set qs \<subseteq> set ps \<Longrightarrow>
   fold (link_alias w) qs (evs, d) = (evs', d') \<Longrightarrow>
   \<forall>q \<in> set qs. exe w (snd q) \<noteq> n \<Longrightarrow> map_of d' n = map_of d n"
proof (induction qs arbitrary: evs d)
  case Nil
  then show ?case by simp
next
  case (Cons q qs)
  obtain e1 d1 where s: "link_alias w q (evs, d) = (e1, d1)"
    by (cases "link_alias w q (evs, d)") auto
  have qin: "q \<in> set ps" and sub: "set qs \<subseteq> set ps" using Cons.prems(3) by simp_all
  have c: "clean w d" using Cons.prems(1) by (simp add: tidy_def)
  have t1: "tidy w ps d1" by (rule link_alias_tidy[OF Cons.prems(1,2) qin s])
  have "map_of d1 n = map_of d n"
    using link_alias_map[OF c s, of n] Cons.prems(5) by auto
  with Cons.IH[OF t1 Cons.prems(2) sub, of e1] Cons.prems(4,5) s show ?case by simp
qed

lemma link_alias_own:
  assumes "clean w d" "link_alias w p (evs, d) = (evs', d')"
  shows "map_of d' (exe w (snd p)) = alias_entry w d p"
  using assms
  by (auto simp: link_alias_eq alias_entry_def wanted_def map_add_def split: if_splits)

lemma aliases_entry:
  "tidy w ps d \<Longrightarrow> apart w ps \<Longrightarrow> set qs \<subseteq> set ps \<Longrightarrow>
   fold (link_alias w) qs (evs, d) = (evs', d') \<Longrightarrow>
   distinct (map (\<lambda>q. exe w (snd q)) qs) \<Longrightarrow>
   p \<in> set qs \<Longrightarrow> map_of d' (exe w (snd p)) = alias_entry w d p"
proof (induction qs arbitrary: evs d)
  case Nil
  then show ?case by simp
next
  case (Cons q qs)
  obtain e1 d1 where s: "link_alias w q (evs, d) = (e1, d1)"
    by (cases "link_alias w q (evs, d)") auto
  have qin: "q \<in> set ps" and sub: "set qs \<subseteq> set ps" using Cons.prems(3) by simp_all
  have c: "clean w d" using Cons.prems(1) by (simp add: tidy_def)
  have t1: "tidy w ps d1" by (rule link_alias_tidy[OF Cons.prems(1,2) qin s])
  have rest: "fold (link_alias w) qs (e1, d1) = (evs', d')"
    using Cons.prems(4) s by simp
  show ?case
  proof (cases "exe w (snd p) = exe w (snd q)")
    case True
    have "\<forall>r \<in> set qs. exe w (snd r) \<noteq> exe w (snd p)"
      using Cons.prems(5) True by (auto simp: image_iff)
    from aliases_untouched[OF t1 Cons.prems(2) sub rest this]
    have "map_of d' (exe w (snd p)) = map_of d1 (exe w (snd q))" using True by simp
    also have "\<dots> = alias_entry w d q" by (rule link_alias_own[OF c s])
    also have "\<dots> = alias_entry w d p"
    proof -
      from Cons.prems(6) have "p = q \<or> p \<in> set qs" by auto
      then show ?thesis
      proof
        assume "p = q" then show ?thesis by simp
      next
        assume "p \<in> set qs"
        with Cons.prems(5) True show ?thesis by (auto simp: image_iff)
      qed
    qed
    finally show ?thesis .
  next
    case False
    with Cons.prems(6) have pin: "p \<in> set qs" by auto
    then have pps: "p \<in> set ps" using sub by auto
    have ne: "exe w (fst p) \<noteq> exe w (snd q)"
      using Cons.prems(2) pps qin by (simp add: apart_def)
    have a: "map_of d1 (exe w (fst p)) = map_of d (exe w (fst p))"
      using link_alias_map[OF c s, of "exe w (fst p)"] ne by auto
    have b: "map_of d1 (exe w (snd p)) = map_of d (exe w (snd p))"
      using link_alias_map[OF c s, of "exe w (snd p)"] False by auto
    have "map_of d' (exe w (snd p)) = alias_entry w d1 p"
      using Cons.IH[OF t1 Cons.prems(2) sub rest _ pin] Cons.prems(5) by simp
    also have "\<dots> = alias_entry w d p"
      using a b by (simp add: alias_entry_def wanted_def)
    finally show ?thesis .
  qed
qed

lemma symlinks_apart: "apart w symlinks"
  by (simp add: apart_def symlinks_def exe_def)

lemma symlinks_distinct: "distinct (map (\<lambda>q. exe w (snd q)) symlinks)"
  by (simp add: symlinks_def exe_def)

lemma fix_decompose:
  assumes "bin w = Some d" "fixTinyTeXSymlinks w = (ok, evs, w')"
  obtains c e1 d1 d2 where
    "fold (repair_entry w) (map fst d) (0, [], d) = (c, e1, d1)"
    "fold (link_alias w) symlinks
       (e1 @ (if c > 0 then [Stdout (Fixed_symlinks c)] else []), d1) = (evs, d2)"
    "w' = w\<lparr>bin := Some d2\<rparr>" "ok"
proof -
  obtain c e1 d1 where sw: "fold (repair_entry w) (map fst d) (0, [], d) = (c, e1, d1)"
    by (cases "fold (repair_entry w) (map fst d) (0, [], d)") auto
  obtain e2 d2 where al:
    "fold (link_alias w) symlinks
       (e1 @ (if c > 0 then [Stdout (Fixed_symlinks c)] else []), d1) = (e2, d2)"
    by (cases "fold (link_alias w) symlinks
         (e1 @ (if c > 0 then [Stdout (Fixed_symlinks c)] else []), d1)") auto
  from assms sw al have "w' = w\<lparr>bin := Some d2\<rparr>" "ok" "evs = e2"
    by (simp_all add: fixTinyTeXSymlinks_def)
  with sw al that show ?thesis by blast
qed

text \<open>After the first loop the directory is tidy.\<close>

lemma sweep_tidy:
  assumes "fold (repair_entry w) (map fst d) (c, evs, d) = (c', evs', d')"
    and "deletions_succeed w d" "links_in_reach w d"
  shows "tidy w symlinks d'"
proof -
  have c: "clean w d'" by (rule sweep_clean[OF assms(1,2)])
  have m: "map_of d' n = (if resolves (max_links w) d n then map_of d n else None)" for n
    by (rule sweep_result[OF assms(1,2)])
  have r: "k \<le> max_links w \<Longrightarrow> resolves k d' n = resolves k d n" for k n
    using sweep_preserves[OF assms(1)] by simp
  have "spare w d' (exe w (fst p))"
    if s: "can_symlink w" and p: "p \<in> set symlinks" and wn: "wanted w d' p" for p
  proof -
    from wn have a: "resolves (max_links w) d (exe w (fst p))"
      by (auto simp: wanted_def m split: if_splits)
    from wn have b: "\<not> resolves (max_links w) d (exe w (snd p))"
      using resolves_present[of "max_links w" d "exe w (snd p)"]
      by (auto simp: wanted_def m split: if_splits)
    from assms(3) s p a b have "spare w d (exe w (fst p))"
      by (auto simp: links_in_reach_def list_all_iff existsSync_def)
    then show ?thesis using r[of "max_links w - 1"] by (simp add: spare_def)
  qed
  with c show ?thesis by (auto simp: tidy_def in_reach_def)
qed


section \<open>Claims about the repair pass\<close>

text \<open>
  C4 (as amended). Provided no deletion the pass attempts fails and, where links can
  be made, every engine whose alias is missing is reached through fewer links than
  path resolution follows (so that a link onto it resolves), a repair pass over an
  existing vendored directory unlinks every broken symbolic link, leaves no broken
  link behind, and a second pass right after it deletes nothing, creates nothing and
  leaves the directory as it is.
\<close>

theorem repair_pass_idempotent:
  assumes "bin w = Some d" "deletions_succeed w d" "links_in_reach w d"
    and "fixTinyTeXSymlinks w = (ok, evs, w')"
  shows "ok \<and> list_all (\<lambda>n. Unlinked n \<in> set evs) (broken_links w d) \<and>
         (\<exists>d'. bin w' = Some d' \<and> broken_links w' d' = []) \<and>
         fixTinyTeXSymlinks w' = (True, [], w')"
proof -
  from fix_decompose[OF assms(1,4)] obtain c e1 d1 d2 where
    sw: "fold (repair_entry w) (map fst d) (0, [], d) = (c, e1, d1)" and
    al: "fold (link_alias w) symlinks
           (e1 @ (if c > 0 then [Stdout (Fixed_symlinks c)] else []), d1) = (evs, d2)" and
    w': "w' = w\<lparr>bin := Some d2\<rparr>" and ok: "ok"
    by blast
  have t1: "tidy w symlinks d1" by (rule sweep_tidy[OF sw assms(2,3)])
  have t2: "tidy w symlinks d2" by (rule aliases_tidy[OF t1 symlinks_apart subset_refl al])
  then have c2: "clean w d2" by (simp add: tidy_def)
  then have c2': "clean w' d2" by (simp add: w' clean_def)
  have q: "\<forall>p \<in> set symlinks. quiet w d2 p"
    by (rule aliases_settle[OF t1 symlinks_apart subset_refl al])
  have q': "\<forall>p \<in> set symlinks. quiet w' d2 p"
    using q by (simp add: w' quiet_def wanted_def exe_def)
  have again: "fixTinyTeXSymlinks w' = (True, [], w')"
    using sweep_idle[OF c2', of "map fst d2" 0 "[]"] aliases_idle[OF c2' q', of "[]"]
    by (simp add: fixTinyTeXSymlinks_def w')
  have "set e1 \<subseteq> set evs" using aliases_events[OF al] by simp
  with sweep_events[OF sw assms(2)] broken_linksD[of _ w d]
  have "list_all (\<lambda>n. Unlinked n \<in> set evs) (broken_links w d)"
    unfolding list_all_iff by blast
  moreover have "bin w' = Some d2" by (simp add: w')
  ultimately show ?thesis using ok again clean_no_broken[OF c2'] by simp
qed

theorem repair_pass_idempotent_witness:
  "deletions_succeed fresh_world fresh_dir \<and> links_in_reach fresh_world fresh_dir \<and>
   broken_links fresh_world fresh_dir = [''stale'', ''ping'', ''pong''] \<and>
   list_all (\<lambda>n. Unlinked n \<in> set (fst (snd (fixTinyTeXSymlinks fresh_world))))
     [''stale'', ''ping'', ''pong''] \<and>
   fixTinyTeXSymlinks (snd (snd (fixTinyTeXSymlinks fresh_world))) =
     (True, [], snd (snd (fixTinyTeXSymlinks fresh_world)))"
proof -
  have b: "bin fresh_world = Some fresh_dir"
    by (simp add: fresh_world_def bare_world_def)
  have h: "deletions_succeed fresh_world fresh_dir"
    by (simp add: deletions_succeed_def fresh_world_def bare_world_def)
  have r: "links_in_reach fresh_world fresh_dir" by code_simp
  have l: "broken_links fresh_world fresh_dir = [''stale'', ''ping'', ''pong'']"
    by code_simp
  have t: "fixTinyTeXSymlinks fresh_world =
             (fst (fixTinyTeXSymlinks fresh_world), fst (snd (fixTinyTeXSymlinks fresh_world)),
              snd (snd (fixTinyTeXSymlinks fresh_world)))"
    by simp
  from repair_pass_idempotent[OF b h r t] h r l show ?thesis by simp
qed

text \<open>
  The claim as stated fails in two ways. Where an unlink fails: in \<open>sticky_world\<close> the
  first pass leaves the broken link \<open>stale\<close> in place, and the second pass creates the
  alias \<open>pdflatex\<close>, because the link \<open>pdftex\<close> that was dangling before the first pass
  resolves through the alias \<open>latex\<close> the first pass made. Where an engine is reached
  through as many links as path resolution follows: in \<open>deep_world\<close> every deletion
  succeeds and \<open>pdftex\<close> exists, the first pass makes the alias \<open>pdflatex\<close>, which
  does not resolve, and the second pass unlinks it and makes it again.
\<close>

theorem repair_pass_not_idempotent:
  "map_option (broken_links sticky_world) (bin (snd (snd (fixTinyTeXSymlinks sticky_world)))) =
     Some [''stale''] \<and>
   fst (snd (fixTinyTeXSymlinks (snd (snd (fixTinyTeXSymlinks sticky_world))))) =
     [Symlinked ''pdftex'' ''pdflatex''] \<and>
   deletions_succeed deep_world deep_dir \<and> existsSync deep_world deep_dir ''pdftex'' \<and>
   fst (snd (fixTinyTeXSymlinks deep_world)) = [Symlinked ''pdftex'' ''pdflatex''] \<and>
   map_option (broken_links deep_world) (bin (snd (snd (fixTinyTeXSymlinks deep_world)))) =
     Some [''pdflatex''] \<and>
   fst (snd (fixTinyTeXSymlinks (snd (snd (fixTinyTeXSymlinks deep_world))))) =
     [Unlinked ''pdflatex'', Stdout (Fixed_symlinks 1), Symlinked ''pdftex'' ''pdflatex'']"
  by code_simp

text \<open>
  C5 (as amended). Provided no deletion the pass attempts fails and, where links can
  be made, every engine whose alias is missing is reached through fewer links than
  path resolution follows, after a repair pass and for each of the four pairs: an
  alias that was absent and has no underlying engine stays absent; an alias that was
  absent and has an underlying engine is a symbolic link to the engine when links can
  be made, else a copied file when the engine can be copied, else still absent (both
  failures are swallowed), and it exists exactly when one of the two succeeded; an
  alias that existed keeps its entry and exists.
\<close>

theorem aliases_after_repair:
  assumes "bin w = Some d" "deletions_succeed w d" "links_in_reach w d"
    and "fixTinyTeXSymlinks w = (ok, evs, w')"
    and "(src, alias) \<in> set symlinks"
  shows "\<exists>d'. bin w' = Some d' \<and>
     (\<not> existsSync w d (exe w src) \<and> \<not> existsSync w d (exe w alias) \<longrightarrow>
        map_of d' (exe w alias) = None) \<and>
     (existsSync w d (exe w src) \<and> \<not> existsSync w d (exe w alias) \<longrightarrow>
        map_of d' (exe w alias) =
          (if can_symlink w then Some (Symlink (Inside (exe w src)))
           else if can_copy w (exe w src) then Some File else None) \<and>
        existsSync w d' (exe w alias) = (can_symlink w \<or> can_copy w (exe w src))) \<and>
     (existsSync w d (exe w alias) \<longrightarrow>
        map_of d' (exe w alias) = map_of d (exe w alias) \<and> existsSync w d' (exe w alias))"
proof -
  from fix_decompose[OF assms(1,4)] obtain c e1 d1 d2 where
    sw: "fold (repair_entry w) (map fst d) (0, [], d) = (c, e1, d1)" and
    al: "fold (link_alias w) symlinks
           (e1 @ (if c > 0 then [Stdout (Fixed_symlinks c)] else []), d1) = (evs, d2)" and
    w': "w' = w\<lparr>bin := Some d2\<rparr>" and ok: "ok"
    by blast
  let ?S = "exe w src" and ?A = "exe w alias" and ?K = "max_links w"
  have t1: "tidy w symlinks d1" by (rule sweep_tidy[OF sw assms(2,3)])
  have t2: "tidy w symlinks d2" by (rule aliases_tidy[OF t1 symlinks_apart subset_refl al])
  then have c2: "clean w d2" by (simp add: tidy_def)
  have m1: "map_of d1 n = (if resolves ?K d n then map_of d n else None)" for n
    by (rule sweep_result[OF sw assms(2)])
  have pres: "resolves ?K d n \<Longrightarrow> map_of d n \<noteq> None" for n
    by (rule resolves_present)
  have wn: "wanted w d1 (src, alias) = (resolves ?K d ?S \<and> \<not> resolves ?K d ?A)"
    using pres[of ?S] pres[of ?A] by (auto simp: wanted_def m1)
  have e: "map_of d2 ?A = alias_entry w d1 (src, alias)"
    using aliases_entry[OF t1 symlinks_apart subset_refl al symlinks_distinct assms(5)] by simp
  have ex: "existsSync w d2 ?A = (map_of d2 ?A \<noteq> None)"
    by (simp add: existsSync_def clean_present[OF c2])
  have a: "\<not> existsSync w d ?S \<and> \<not> existsSync w d ?A \<longrightarrow> map_of d2 ?A = None"
    using e wn by (simp add: existsSync_def alias_entry_def m1)
  have b: "existsSync w d ?S \<and> \<not> existsSync w d ?A \<longrightarrow>
        map_of d2 ?A =
          (if can_symlink w then Some (Symlink (Inside ?S))
           else if can_copy w ?S then Some File else None) \<and>
        existsSync w d2 ?A = (can_symlink w \<or> can_copy w ?S)"
    using e wn ex by (simp add: existsSync_def alias_entry_def)
  have k: "existsSync w d ?A \<longrightarrow> map_of d2 ?A = map_of d ?A \<and> existsSync w d2 ?A"
    using e wn ex pres[of ?A] by (auto simp: existsSync_def alias_entry_def m1)
  have bw: "bin w' = Some d2" by (simp add: w')
  from a b k show ?thesis unfolding bw by blast
qed

theorem aliases_after_repair_witness:
  "deletions_succeed fresh_world fresh_dir \<and> links_in_reach fresh_world fresh_dir \<and>
   existsSync fresh_world fresh_dir ''pdftex'' \<and>
   \<not> existsSync fresh_world fresh_dir ''pdflatex'' \<and>
   map_option (\<lambda>d'. map_of d' ''pdflatex'') (bin (snd (snd (fixTinyTeXSymlinks fresh_world)))) =
     Some (Some (Symlink (Inside ''pdftex'')))"
proof -
  have b: "bin fresh_world = Some fresh_dir"
    by (simp add: fresh_world_def bare_world_def)
  have h: "deletions_succeed fresh_world fresh_dir"
    by (simp add: deletions_succeed_def fresh_world_def bare_world_def)
  have r: "links_in_reach fresh_world fresh_dir" by code_simp
  have t: "fixTinyTeXSymlinks fresh_world =
             (fst (fixTinyTeXSymlinks fresh_world), fst (snd (fixTinyTeXSymlinks fresh_world)),
              snd (snd (fixTinyTeXSymlinks fresh_world)))"
    by simp
  have p: "(''pdftex'', ''pdflatex'') \<in> set symlinks"
    by (simp add: symlinks_def)
  have x: "existsSync fresh_world fresh_dir ''pdftex''"
    "\<not> existsSync fresh_world fresh_dir ''pdflatex''"
    by code_simp+
  have s: "can_symlink fresh_world" "exe fresh_world ''pdftex'' = ''pdftex''"
    "exe fresh_world ''pdflatex'' = ''pdflatex''"
    by (simp_all add: fresh_world_def bare_world_def exe_def)
  from aliases_after_repair[OF b h r t p] x s
  have "map_option (\<lambda>d'. map_of d' ''pdflatex'')
          (bin (snd (snd (fixTinyTeXSymlinks fresh_world)))) =
        Some (Some (Symlink (Inside ''pdftex'')))"
    by auto
  with h r x show ?thesis by (intro conjI)
qed

text \<open>
  The claim as stated fails in three ways. Where neither a link nor a copy can be
  made: the pass over \<open>readonly_world\<close> returns \<open>true\<close>, the engine \<open>pdftex\<close> exists,
  the alias \<open>pdflatex\<close> was absent, and it is still absent afterwards. Where an unlink
  fails: in \<open>late_world\<close> neither \<open>luatex\<close> nor \<open>lualatex\<close> exists before the pass, the
  dangling link \<open>luatex\<close> stays, the pass makes the alias \<open>latex\<close>, through which
  \<open>luatex\<close> resolves, and then makes the alias \<open>lualatex\<close>. Where an engine is reached
  through as many links as path resolution follows: in \<open>deep_world\<close> the engine
  \<open>pdftex\<close> exists, the alias \<open>pdflatex\<close> is made as a link, and it does not exist.
\<close>

theorem alias_missing_after_repair:
  "fst (fixTinyTeXSymlinks readonly_world) \<and>
   bin readonly_world = Some [(''pdftex'', File)] \<and>
   bin (snd (snd (fixTinyTeXSymlinks readonly_world))) = Some [(''pdftex'', File)] \<and>
   \<not> existsSync late_world late_dir ''luatex'' \<and>
   \<not> existsSync late_world late_dir ''lualatex'' \<and>
   fst (snd (fixTinyTeXSymlinks late_world)) =
     [Symlinked ''tex'' ''latex'', Symlinked ''luatex'' ''lualatex''] \<and>
   map_option (\<lambda>d'. existsSync late_world d' ''lualatex'')
     (bin (snd (snd (fixTinyTeXSymlinks late_world)))) = Some True \<and>
   deletions_succeed deep_world deep_dir \<and> existsSync deep_world deep_dir ''pdftex'' \<and>
   \<not> existsSync deep_world deep_dir ''pdflatex'' \<and>
   map_option (\<lambda>d'. (map_of d' ''pdflatex'', existsSync deep_world d' ''pdflatex''))
     (bin (snd (snd (fixTinyTeXSymlinks deep_world)))) =
     Some (Some (Symlink (Inside ''pdftex'')), False)"
  by code_simp

section \<open>Download progress\<close>

lemma fold_on_data_falsy:
  "\<not> truthy_number t \<Longrightarrow> snd (snd (fold (on_data pc t) cs (dl, lp, lg))) = lg"
  by (induction cs arbitrary: dl) (simp_all add: on_data_def)

lemma fold_on_data_known:
  "truthy_number t \<Longrightarrow>
   snd (snd (fold (on_data pc t) cs (dl, lp, lg))) = lg @ progress_from pc t dl lp cs"
  by (induction cs arbitrary: dl lp lg) (simp_all add: on_data_def Let_def)

lemma progress_from_sound:
  "p \<in> set (progress_from pc t dl lp cs) \<Longrightarrow>
     lp < p \<and> p mod 10 = 0 \<and> p \<in> set (percents pc t dl cs)"
proof (induction cs arbitrary: dl lp)
  case Nil
  then show ?case by simp
next
  case (Cons c cs)
  let ?q = "pc (dl + int c) t"
  show ?case
  proof (cases "?q > lp \<and> ?q mod 10 = 0")
    case True
    with Cons.prems have "p = ?q \<or> p \<in> set (progress_from pc t (dl + int c) ?q cs)" by simp
    then show ?thesis
    proof
      assume "p = ?q" with True show ?thesis by simp
    next
      assume "p \<in> set (progress_from pc t (dl + int c) ?q cs)"
      from Cons.IH[OF this] True show ?thesis by simp
    qed
  next
    case False
    with Cons.prems have "p \<in> set (progress_from pc t (dl + int c) lp cs)" by auto
    from Cons.IH[OF this] show ?thesis by simp
  qed
qed

lemma progress_from_sorted: "sorted_wrt (<) (progress_from pc t dl lp cs)"
proof (induction cs arbitrary: dl lp)
  case Nil
  then show ?case by simp
next
  case (Cons c cs)
  show ?case using Cons.IH progress_from_sound[of _ pc t "dl + int c" _ cs] by auto
qed

lemma percents_ge:
  "rising pc t \<Longrightarrow> 0 \<le> dl \<Longrightarrow> p \<in> set (percents pc t dl cs) \<Longrightarrow> pc dl t \<le> p"
proof (induction cs arbitrary: dl)
  case Nil
  then show ?case by simp
next
  case (Cons c cs)
  have step: "pc dl t \<le> pc (dl + int c) t"
    using Cons.prems(1,2) by (simp add: rising_def)
  have nn: "0 \<le> dl + int c" using Cons.prems(2) by simp
  from Cons.prems(3) have "p = pc (dl + int c) t \<or> p \<in> set (percents pc t (dl + int c) cs)"
    by simp
  then show ?case
  proof
    assume "p = pc (dl + int c) t" with step show ?thesis by simp
  next
    assume "p \<in> set (percents pc t (dl + int c) cs)"
    from Cons.IH[OF Cons.prems(1) nn this] step show ?thesis by linarith
  qed
qed

lemma progress_from_complete:
  "rising pc t \<Longrightarrow> 0 \<le> dl \<Longrightarrow> p \<in> set (percents pc t dl cs) \<Longrightarrow>
   lp < p \<Longrightarrow> p mod 10 = 0 \<Longrightarrow> p \<in> set (progress_from pc t dl lp cs)"
proof (induction cs arbitrary: dl lp)
  case Nil
  then show ?case by simp
next
  case (Cons c cs)
  let ?q = "pc (dl + int c) t"
  have nn: "0 \<le> dl + int c" using Cons.prems(2) by simp
  show ?case
  proof (cases "?q > lp \<and> ?q mod 10 = 0")
    case True
    show ?thesis
    proof (cases "p = ?q")
      case True
      with \<open>?q > lp \<and> ?q mod 10 = 0\<close> show ?thesis by simp
    next
      case False
      with Cons.prems(3) have in_tl: "p \<in> set (percents pc t (dl + int c) cs)" by simp
      from percents_ge[OF Cons.prems(1) nn in_tl] False have "?q < p" by simp
      from Cons.IH[OF Cons.prems(1) nn in_tl this Cons.prems(5)] True show ?thesis by simp
    qed
  next
    case False
    have "p \<noteq> ?q"
    proof
      assume "p = ?q"
      with Cons.prems(4,5) False show False by simp
    qed
    with Cons.prems(3) have in_tl: "p \<in> set (percents pc t (dl + int c) cs)" by simp
    from Cons.IH[OF Cons.prems(1) nn in_tl Cons.prems(4,5)] False show ?thesis by auto
  qed
qed

lemma download_progress_eq:
  "download_progress pc totalSize chunks =
     snd (snd (fold (on_data pc totalSize) chunks (0, 0, [])))"
  by (simp add: download_progress_def split: prod.splits)

lemma rising_exact_percent: "0 < t \<Longrightarrow> rising exact_percent (Finite t)"
  by (simp add: rising_def zdiv_mono1)

text \<open>
  C8 (as amended). With no content-length (or a content-length of zero) no progress
  is ever reported. With a content-length that is a number other than zero, as long
  as the percentage \<^verbatim>\<open>Math.floor((downloadedSize / totalSize) * 100)\<close> the handler
  computes never falls when more bytes arrive (as is the case for every positive
  total) and no more than \<open>2 ^ 53\<close> bytes arrive (so that the handler's count of them
  is exact), a line is reported after a chunk exactly when the percentage computed
  after that chunk is a positive multiple of ten that was not reported before: the
  logged values are the positive multiples of ten that occur among the percentages
  computed after the chunks, in increasing order. A multiple of ten that a chunk
  jumps over is not reported.
\<close>

theorem progress_lines:
  "(totalSize = NaN \<or> totalSize = Finite 0 \<longrightarrow> download_progress pc totalSize chunks = []) \<and>
   (truthy_number t \<and> rising pc t \<and> int (sum_list chunks) \<le> 2 ^ 53 \<longrightarrow>
      set (download_progress pc t chunks) =
        {p \<in> set (percents pc t 0 chunks). 0 < p \<and> p mod 10 = 0} \<and>
      sorted_wrt (<) (download_progress pc t chunks))"
proof -
  have a: "download_progress pc NaN chunks = []" "download_progress pc (Finite 0) chunks = []"
    using fold_on_data_falsy[of NaN pc chunks 0 0 "[]"]
      fold_on_data_falsy[of "Finite 0" pc chunks 0 0 "[]"]
    by (simp_all add: download_progress_eq)
  have b: "download_progress pc t chunks = progress_from pc t 0 0 chunks" if "truthy_number t"
    using fold_on_data_known[OF that, of pc chunks 0 0 "[]"]
    by (simp add: download_progress_eq)
  have c: "set (progress_from pc t 0 0 chunks) =
        {p \<in> set (percents pc t 0 chunks). 0 < p \<and> p mod 10 = 0}" if "rising pc t"
    using progress_from_sound[of _ pc t 0 0 chunks]
      progress_from_complete[OF that, of 0 _ chunks 0]
    by auto
  from a b c progress_from_sorted[of pc t 0 0 chunks] show ?thesis by auto
qed

theorem progress_lines_witness:
  "truthy_number (Finite 200) \<and> rising exact_percent (Finite 200) \<and>
   int (sum_list [20, 20, 60, 100]) \<le> 2 ^ 53 \<and>
   download_progress exact_percent NaN [20, 20, 60, 100] = [] \<and>
   percents exact_percent (Finite 200) 0 [20, 20, 60, 100] = [10, 20, 50, 100] \<and>
   download_progress exact_percent (Finite 200) [20, 20, 60, 100] = [10, 20, 50, 100] \<and>
   set [10, 20, 50, 100::int] =
     {p \<in> set (percents exact_percent (Finite 200) 0 [20, 20, 60, 100]). 0 < p \<and> p mod 10 = 0}"
proof -
  have r: "rising exact_percent (Finite 200)" by (rule rising_exact_percent) simp
  have s: "int (sum_list [20, 20, 60, 100]) \<le> 2 ^ 53" by simp
  have e: "download_progress exact_percent (Finite 200) [20, 20, 60, 100] = [10, 20, 50, 100]"
    by code_simp
  have p: "percents exact_percent (Finite 200) 0 [20, 20, 60, 100] = [10, 20, 50, 100]"
    by code_simp
  have n: "download_progress exact_percent NaN [20, 20, 60, 100] = []"
    using progress_lines[of NaN exact_percent "[20, 20, 60, 100]" NaN] by simp
  have "set (download_progress exact_percent (Finite 200) [20, 20, 60, 100]) =
     {p \<in> set (percents exact_percent (Finite 200) 0 [20, 20, 60, 100]). 0 < p \<and> p mod 10 = 0}"
    using progress_lines[of NaN exact_percent "[20, 20, 60, 100]" "Finite 200"] r s by simp
  with e have q: "set [10, 20, 50, 100::int] =
     {p \<in> set (percents exact_percent (Finite 200) 0 [20, 20, 60, 100]). 0 < p \<and> p mod 10 = 0}"
    by simp
  from r s e p n q show ?thesis by simp
qed

text \<open>
  The claim as stated fails for chunks that jump over a multiple of ten: four chunks of
  a quarter of the file each reach 25, 50, 75 and 100 percent (quarters are exact in
  doubles, so that the exact percentage is the one the handler computes), and only 50
  and 100 are reported.
\<close>

theorem progress_skips_increments:
  "percents exact_percent (Finite 4) 0 [1, 1, 1, 1] = [25, 50, 75, 100] \<and>
   download_progress exact_percent (Finite 4) [1, 1, 1, 1] = [50, 100]"
  by code_simp

section \<open>Properties of the command\<close>

subsection \<open>Only the vendored directory changes\<close>

lemma differs_in_bin_refl: "differs_in_bin w w"
  unfolding differs_in_bin_def by (rule exI[of _ "bin w"]) simp

lemma differs_in_bin_update: "differs_in_bin w (w\<lparr>bin := b\<rparr>)"
  unfolding differs_in_bin_def by blast

lemma differs_in_bin_trans:
  "differs_in_bin w w1 \<Longrightarrow> differs_in_bin w1 w2 \<Longrightarrow> differs_in_bin w w2"
  by (auto simp: differs_in_bin_def)

lemma differs_in_bin_fields:
  assumes "differs_in_bin w w'"
  shows "files w' = files w" "path_join w' = path_join w" "path_parse w' = path_parse w"
    "latex w' = latex w" "path_basename w' = path_basename w" "platform w' = platform w"
    "which_pdflatex w' = which_pdflatex w"
  using assms by (auto simp: differs_in_bin_def)

lemma fix_frame:
  "fixTinyTeXSymlinks w = (r, evs, w') \<Longrightarrow> differs_in_bin w w'"
  by (auto simp: fixTinyTeXSymlinks_def differs_in_bin_refl differs_in_bin_update
      split: option.splits prod.splits)

lemma installTinyTeX_frame:
  "installTinyTeX w = (r, evs, w') \<Longrightarrow> differs_in_bin w w'"
  using fix_frame[of "w\<lparr>bin := snd (fetch w)\<rparr>"] differs_in_bin_update[of w "snd (fetch w)"]
  by (auto simp: installTinyTeX_def Let_def split: if_splits prod.splits
      intro: differs_in_bin_trans)

lemma install_main_frame:
  "install_main w = (code, evs, w') \<Longrightarrow> differs_in_bin w w'"
  using fix_frame[of w] installTinyTeX_frame[of w]
  by (auto simp: install_main_def Let_def differs_in_bin_refl split: if_splits prod.splits)

lemma runInstallScript_frame:
  "runInstallScript w = (r, evs, w') \<Longrightarrow> differs_in_bin w w'"
  using install_main_frame[of w]
  by (auto simp: runInstallScript_def differs_in_bin_refl split: option.splits prod.splits)

lemma ensureLaTeX_frame:
  "ensureLaTeX w = (r, evs, w') \<Longrightarrow> differs_in_bin w w'"
proof (cases "hasLaTeX w")
  case True
  assume "ensureLaTeX w = (r, evs, w')"
  with True fix_frame[of w] show ?thesis
    by (auto simp: ensureLaTeX_def split: prod.splits)
next
  case False
  assume e: "ensureLaTeX w = (r, evs, w')"
  obtain p e1 w1 where ri: "runInstallScript w = (p, e1, w1)"
    by (cases "runInstallScript w") auto
  have f1: "differs_in_bin w w1" by (rule runInstallScript_frame[OF ri])
  show ?thesis
  proof (cases p)
    case Resolved
    obtain r2 e2 w2 where fx: "fixTinyTeXSymlinks w1 = (r2, e2, w2)"
      by (cases "fixTinyTeXSymlinks w1") auto
    from e False ri Resolved fx have "w' = w2" by (simp add: ensureLaTeX_def)
    with differs_in_bin_trans[OF f1 fix_frame[OF fx]] show ?thesis by simp
  next
    case (Rejected err)
    with e False ri have "w' = w1" by (simp add: ensureLaTeX_def)
    with f1 show ?thesis by simp
  qed
qed

subsection \<open>No engine runs before the conversion\<close>

lemma runs_append [simp]: "runs (xs @ ys) = runs xs @ runs ys"
  by (simp add: runs_def)

lemma runs_simps [simp]:
  "runs [] = []"
  "runs (Stdout m # evs) = runs evs"
  "runs (Stderr m # evs) = runs evs"
  "runs (Unlinked f # evs) = runs evs"
  "runs (Symlinked a b # evs) = runs evs"
  "runs (Copied a b # evs) = runs evs"
  "runs (Exec_which # evs) = runs evs"
  "runs (Exec_version # evs) = runs evs"
  "runs (Spawn_install # evs) = runs evs"
  "runs (Fetch_archive # evs) = runs evs"
  "runs (Run_engine c i out # evs) = Run_engine c i out # runs evs"
  by (simp_all add: runs_def)

lemma sweep_no_runs:
  "fold (repair_entry w) fs (c, evs, d) = (c', evs', d') \<Longrightarrow> runs evs' = runs evs"
proof (induction fs arbitrary: c evs d)
  case Nil
  then show ?case by simp
next
  case (Cons f fs)
  show ?case
  proof (cases "doomed w d f")
    case True
    with Cons.prems Cons.IH[of "c + 1" "evs @ [Unlinked f]" "AList.delete f d"]
    show ?thesis by (simp add: repair_entry_eq)
  next
    case False
    with Cons.prems Cons.IH[of c evs d] show ?thesis by (simp add: repair_entry_eq)
  qed
qed

lemma link_alias_no_runs:
  "link_alias w p (evs, d) = (evs', d') \<Longrightarrow> runs evs' = runs evs"
  by (auto simp: link_alias_def Let_def split: if_splits sum.splits)

lemma aliases_no_runs:
  "fold (link_alias w) ps (evs, d) = (evs', d') \<Longrightarrow> runs evs' = runs evs"
proof (induction ps arbitrary: evs d)
  case Nil
  then show ?case by simp
next
  case (Cons p ps)
  obtain e1 d1 where s: "link_alias w p (evs, d) = (e1, d1)"
    by (cases "link_alias w p (evs, d)") auto
  from Cons.IH[of e1 d1] Cons.prems s link_alias_no_runs[OF s] show ?case by simp
qed

lemma fix_no_runs: "fixTinyTeXSymlinks w = (r, evs, w') \<Longrightarrow> runs evs = []"
proof (cases "bin w")
  case None
  assume "fixTinyTeXSymlinks w = (r, evs, w')"
  with None show ?thesis by (simp add: fixTinyTeXSymlinks_def)
next
  case (Some d)
  assume a: "fixTinyTeXSymlinks w = (r, evs, w')"
  from fix_decompose[OF Some a] obtain c e1 d1 d2 where
    sw: "fold (repair_entry w) (map fst d) (0, [], d) = (c, e1, d1)" and
    al: "fold (link_alias w) symlinks
           (e1 @ (if c > 0 then [Stdout (Fixed_symlinks c)] else []), d1) = (evs, d2)" and
    w': "w' = w\<lparr>bin := Some d2\<rparr>" and ok: "r"
    by blast
  from sweep_no_runs[OF sw] aliases_no_runs[OF al] show ?thesis by simp
qed

lemma installTinyTeX_no_runs: "installTinyTeX w = (r, evs, w') \<Longrightarrow> runs evs = []"
  using fix_no_runs[of "w\<lparr>bin := snd (fetch w)\<rparr>"]
  by (auto simp: installTinyTeX_def Let_def split: if_splits prod.splits)

lemma install_main_no_runs: "install_main w = (code, evs, w') \<Longrightarrow> runs evs = []"
  using fix_no_runs[of w] installTinyTeX_no_runs[of w]
  by (auto simp: install_main_def Let_def split: if_splits prod.splits)

lemma runInstallScript_no_runs: "runInstallScript w = (r, evs, w') \<Longrightarrow> runs evs = []"
  using install_main_no_runs[of w]
  by (auto simp: runInstallScript_def split: option.splits prod.splits)

lemma ensureLaTeX_no_runs: "ensureLaTeX w = (r, evs, w') \<Longrightarrow> runs evs = []"
proof (cases "hasLaTeX w")
  case True
  assume "ensureLaTeX w = (r, evs, w')"
  with True fix_no_runs[of w] show ?thesis
    by (auto simp: ensureLaTeX_def split: prod.splits)
next
  case False
  assume e: "ensureLaTeX w = (r, evs, w')"
  obtain p e1 w1 where ri: "runInstallScript w = (p, e1, w1)"
    by (cases "runInstallScript w") auto
  have n1: "runs e1 = []" by (rule runInstallScript_no_runs[OF ri])
  show ?thesis
  proof (cases p)
    case Resolved
    obtain r2 e2 w2 where fx: "fixTinyTeXSymlinks w1 = (r2, e2, w2)"
      by (cases "fixTinyTeXSymlinks w1") auto
    from e False ri Resolved fx n1 fix_no_runs[OF fx] show ?thesis
      by (auto simp: ensureLaTeX_def)
  next
    case (Rejected err)
    with e False ri n1 show ?thesis by (auto simp: ensureLaTeX_def)
  qed
qed

subsection \<open>The branches of main\<close>

lemma parseArgs_unknown:
  "List.find unknown_flag rest = Some a \<Longrightarrow> parseArgs rest acc = Inl a"
proof (induction rest acc rule: parseArgs.induct)
  case (1 acc)
  then show ?case by simp
next
  case (2 arg rest engine outputFile)
  then show ?case by (auto simp: unknown_flag_def split: if_splits)
qed

lemma parseArgs_engines:
  "\<forall>a \<in> set rest. startsWith a ''--engine='' \<Longrightarrow>
   \<exists>engine'. parseArgs rest (engine, outputFile) = Inr (engine', outputFile)"
  by (induction rest arbitrary: engine) auto

lemma convertFile_missing:
  "inputPath \<notin> set (files w) \<Longrightarrow>
   convertFile w inputPath outputPath engine = (Inl 1, [Stderr (File_not_found inputPath)])"
  by (simp add: convertFile_def)

lemma convert_missing:
  "inputPath \<notin> set (files w) \<Longrightarrow>
   convert_or_fall_back w inputPath outputPath engine =
     (Exit 1, [Stderr (File_not_found inputPath)])"
  by (simp add: convert_or_fall_back_def convertFile_missing)

lemma main_help:
  "''--help'' \<in> set args \<or> ''-h'' \<in> set args \<or> args = [] \<Longrightarrow>
   main w args = (Exit 0, [Stdout Usage], w)"
  by (cases args) (auto simp: main_def)

lemma main_install:
  assumes "args \<noteq> []" "''--help'' \<notin> set args" "''-h'' \<notin> set args" "''--install'' \<in> set args"
    and "runInstallScript w = (p, evs, w1)"
  shows "main w args =
     ((case p of Resolved \<Rightarrow> Exit 0 | Rejected err \<Rightarrow> Uncaught err),
      Stdout Force_installing # evs, w1)"
  using assms by (cases args; cases p) (auto simp: main_def)

lemma main_not_ready:
  assumes "flags_absent (i # rest)" "ensureLaTeX w = (False, evs, w1)"
  shows "main w (i # rest) = (Exit 1, evs, w1)"
  using assms by (auto simp: main_def flags_absent_def)

lemma main_unknown:
  assumes "flags_absent (i # rest)" "ensureLaTeX w = (True, evs, w1)"
    and "parseArgs rest (''xelatex'', None) = Inl a"
  shows "main w (i # rest) = (Exit 1, evs @ [Stderr (Unknown_option a)], w1)"
  using assms by (auto simp: main_def flags_absent_def)

lemma main_convert:
  assumes "flags_absent (i # rest)" "ensureLaTeX w = (True, evs, w1)"
    and "parseArgs rest (''xelatex'', None) = Inr (engine, outputFile)"
  shows "main w (i # rest) =
     (case convert_or_fall_back w1 i
             (case outputFile of
                None \<Rightarrow> default_output w1 i
              | Some given \<Rightarrow> if truthy given then given else default_output w1 i) engine of
        (oc, evs2) \<Rightarrow> (oc, evs @ evs2, w1))"
  using assms
  by (auto simp: main_def flags_absent_def default_output_def Let_def split: option.splits)

lemma convertFile_outputs:
  "set (run_outputs (snd (convertFile w i out engine))) \<subseteq> {out}"
  by (auto simp: convertFile_def run_outputs_def split: option.splits if_splits)

lemma convert_outputs:
  "set (run_outputs (snd (convert_or_fall_back w i out engine))) \<subseteq> {out}"
proof -
  obtain r1 e1 where c1: "convertFile w i out engine = (r1, e1)"
    by (cases "convertFile w i out engine") auto
  obtain r2 e2 where c2: "convertFile w i out ''xelatex'' = (r2, e2)"
    by (cases "convertFile w i out ''xelatex''") auto
  have o1: "set (run_outputs e1) \<subseteq> {out}" using convertFile_outputs[of w i out engine] c1 by simp
  have o2: "set (run_outputs e2) \<subseteq> {out}"
    using convertFile_outputs[of w i out "''xelatex''"] c2 by simp
  show ?thesis
    using o1 o2 c1 c2
    by (auto simp: convert_or_fall_back_def run_outputs_def
        split: sum.splits promise.splits if_splits)
qed

lemma install_main_status:
  "fst (install_main w) = 0 \<longleftrightarrow>
     pdflatex_runs w \<or> checkTinyTeXInstalled w \<or> fst (fetch w) \<or> postinstall w"
  by (auto simp: install_main_def installTinyTeX_def checkExistingLaTeX_def Let_def
      split: prod.splits if_splits)

lemma getEnginePath_some:
  "getEnginePath w engine = Some cmd \<Longrightarrow>
   \<exists>cmd2. getEnginePath w engine2 = Some cmd2 \<and>
          cmd2 = path_join w [fst (the (getLaTeXPath w)), exe w engine2]"
  by (auto simp: getEnginePath_def exe_def split: option.splits)

lemma plain_join_nonempty: "plain_join xs \<noteq> []"
  by (simp add: plain_join_def Let_def)

lemma join_nonempty_bare: "join_nonempty bare_world"
  by (simp add: join_nonempty_def bare_world_def plain_join_nonempty)


section \<open>Claims about the command\<close>

text \<open>
  C1 (as amended). The fallback belongs to \<open>pdflatex\<close>, which is not the default
  engine (the default is \<open>xelatex\<close>). When a conversion is rejected: if the requested
  engine is \<open>pdflatex\<close> and the message contains \<open>Font\<close>, the whole conversion is
  run exactly once more with \<open>xelatex\<close>, and the process returns normally if that run
  succeeds and exits with status 1 if it fails; in every other case (another engine,
  the default included, or another message) there is one engine run and the process
  exits with status 1.
\<close>

theorem font_fallback:
  assumes "join_nonempty w"
    and "convertFile w inputFile outputFile engine = (Inr (Rejected err), evs)"
  shows "(engine = ''pdflatex'' \<and> str_includes err ''Font'' \<longrightarrow>
            (\<exists>cmd cmd2.
               getEnginePath w ''pdflatex'' = Some cmd \<and> getEnginePath w ''xelatex'' = Some cmd2 \<and>
               runs (snd (convert_or_fall_back w inputFile outputFile engine)) =
                 [Run_engine cmd inputFile outputFile, Run_engine cmd2 inputFile outputFile] \<and>
               fst (convert_or_fall_back w inputFile outputFile engine) =
                 (case latex w cmd2 inputFile of None \<Rightarrow> Returned | Some fallbackErr \<Rightarrow> Exit 1))) \<and>
         (\<not> (engine = ''pdflatex'' \<and> str_includes err ''Font'') \<longrightarrow>
            fst (convert_or_fall_back w inputFile outputFile engine) = Exit 1 \<and>
            length (runs (snd (convert_or_fall_back w inputFile outputFile engine))) = 1)"
proof -
  from assms(2) obtain cmd where
    inp: "inputFile \<in> set (files w)" and
    ge: "getEnginePath w engine = Some cmd" and
    lt: "latex w cmd inputFile = Some err" and
    evs: "evs = [Exec_which, Stdout (Converting (path_basename w inputFile)),
                 Run_engine cmd inputFile outputFile]"
    by (auto simp: convertFile_def split: if_splits option.splits)
  have r1: "runs evs = [Run_engine cmd inputFile outputFile]" by (simp add: evs)
  show ?thesis
  proof (cases "engine = ''pdflatex'' \<and> str_includes err ''Font''")
    case False
    with assms(2) r1 show ?thesis by (auto simp: convert_or_fall_back_def)
  next
    case True
    from getEnginePath_some[OF ge, of "''xelatex''"] obtain cmd2 where
      g2: "getEnginePath w ''xelatex'' = Some cmd2" and
      c2: "cmd2 = path_join w [fst (the (getLaTeXPath w)), exe w ''xelatex'']"
      by blast
    from c2 assms(1) have t2: "truthy cmd2" by (simp add: truthy_def join_nonempty_def)
    have second: "convertFile w inputFile outputFile ''xelatex'' =
        (case latex w cmd2 inputFile of
           None \<Rightarrow> (Inr Resolved,
                     [Exec_which, Stdout (Converting (path_basename w inputFile)),
                      Run_engine cmd2 inputFile outputFile, Stdout (Created outputFile)])
         | Some e \<Rightarrow> (Inr (Rejected e),
                      [Exec_which, Stdout (Converting (path_basename w inputFile)),
                       Run_engine cmd2 inputFile outputFile]))"
      using inp g2 t2 by (simp add: convertFile_def split: option.splits)
    from True ge have g1: "getEnginePath w ''pdflatex'' = Some cmd" by simp
    from True assms(2) second r1 g1 g2 show ?thesis
      by (auto simp: convert_or_fall_back_def split: option.splits)
  qed
qed

theorem font_fallback_witness:
  "join_nonempty pdflatex_font_world \<and>
   convertFile pdflatex_font_world ''doc.tex'' ''doc.pdf'' ''pdflatex'' =
     (Inr (Rejected ''Font cmr10 not found''),
      [Exec_which, Stdout (Converting ''doc.tex''),
       Run_engine ''/usr/bin/pdflatex'' ''doc.tex'' ''doc.pdf'']) \<and>
   str_includes ''Font cmr10 not found'' ''Font'' \<and>
   fst (convert_or_fall_back pdflatex_font_world ''doc.tex'' ''doc.pdf'' ''pdflatex'') = Returned \<and>
   runs (snd (convert_or_fall_back pdflatex_font_world ''doc.tex'' ''doc.pdf'' ''pdflatex'')) =
     [Run_engine ''/usr/bin/pdflatex'' ''doc.tex'' ''doc.pdf'',
      Run_engine ''/usr/bin/xelatex'' ''doc.tex'' ''doc.pdf'']"
proof -
  have j: "join_nonempty pdflatex_font_world"
    by (simp add: join_nonempty_def pdflatex_font_world_def tex_world_def bare_world_def
        plain_join_nonempty)
  have c: "convertFile pdflatex_font_world ''doc.tex'' ''doc.pdf'' ''pdflatex'' =
     (Inr (Rejected ''Font cmr10 not found''),
      [Exec_which, Stdout (Converting ''doc.tex''),
       Run_engine ''/usr/bin/pdflatex'' ''doc.tex'' ''doc.pdf''])" by code_simp
  have s: "str_includes ''Font cmr10 not found'' ''Font''" by code_simp
  have g: "getEnginePath pdflatex_font_world ''pdflatex'' = Some ''/usr/bin/pdflatex''"
    "getEnginePath pdflatex_font_world ''xelatex'' = Some ''/usr/bin/xelatex''"
    "latex pdflatex_font_world ''/usr/bin/xelatex'' ''doc.tex'' = None"
    by code_simp+
  from font_fallback[OF j c] have
    "''pdflatex'' = ''pdflatex'' \<and> str_includes ''Font cmr10 not found'' ''Font'' \<longrightarrow>
       (\<exists>cmd cmd2.
          getEnginePath pdflatex_font_world ''pdflatex'' = Some cmd \<and>
          getEnginePath pdflatex_font_world ''xelatex'' = Some cmd2 \<and>
          runs (snd (convert_or_fall_back pdflatex_font_world ''doc.tex'' ''doc.pdf'' ''pdflatex'')) =
            [Run_engine cmd ''doc.tex'' ''doc.pdf'', Run_engine cmd2 ''doc.tex'' ''doc.pdf''] \<and>
          fst (convert_or_fall_back pdflatex_font_world ''doc.tex'' ''doc.pdf'' ''pdflatex'') =
            (case latex pdflatex_font_world cmd2 ''doc.tex'' of
               None \<Rightarrow> Returned | Some fallbackErr \<Rightarrow> Exit 1))"
    by (rule conjunct1)
  with s obtain cmd cmd2 where
    a: "getEnginePath pdflatex_font_world ''pdflatex'' = Some cmd"
       "getEnginePath pdflatex_font_world ''xelatex'' = Some cmd2" and
    b: "runs (snd (convert_or_fall_back pdflatex_font_world ''doc.tex'' ''doc.pdf'' ''pdflatex'')) =
            [Run_engine cmd ''doc.tex'' ''doc.pdf'', Run_engine cmd2 ''doc.tex'' ''doc.pdf'']"
       "fst (convert_or_fall_back pdflatex_font_world ''doc.tex'' ''doc.pdf'' ''pdflatex'') =
            (case latex pdflatex_font_world cmd2 ''doc.tex'' of
               None \<Rightarrow> Returned | Some fallbackErr \<Rightarrow> Exit 1)"
    by blast
  from a g(1,2) have "cmd = ''/usr/bin/pdflatex''" "cmd2 = ''/usr/bin/xelatex''" by simp_all
  with b g(3) have
    "fst (convert_or_fall_back pdflatex_font_world ''doc.tex'' ''doc.pdf'' ''pdflatex'') = Returned"
    "runs (snd (convert_or_fall_back pdflatex_font_world ''doc.tex'' ''doc.pdf'' ''pdflatex'')) =
     [Run_engine ''/usr/bin/pdflatex'' ''doc.tex'' ''doc.pdf'',
      Run_engine ''/usr/bin/xelatex'' ''doc.tex'' ''doc.pdf'']"
    by simp_all
  with j c s show ?thesis by (intro conjI)
qed

text \<open>
  The claim as stated fails for the default engine: with no \<open>--engine\<close> option the
  engine is \<open>xelatex\<close>, and a font failure of it ends the process with status 1 after
  a single engine run.
\<close>

theorem default_engine_has_no_fallback:
  "parseArgs [] (''xelatex'', None) = Inr (''xelatex'', None) \<and>
   fst (main font_world [''doc.tex'']) = Exit 1 \<and>
   fst (snd (main font_world [''doc.tex''])) =
     [Exec_which, Exec_which, Stdout (Converting ''doc.tex''),
      Run_engine ''/usr/bin/xelatex'' ''doc.tex'' ''doc.pdf'',
      Stderr (Conversion_failed ''Font cmr10 not found'')]"
  by code_simp

text \<open>
  C2 (as amended). An invocation with at least one argument, no help flag and the flag
  \<open>--install\<close> runs the install script. It exits with status 0 exactly when the script
  could be spawned and exited with status 0, that is when a system LaTeX answered, the
  vendored installation was already there, the download succeeded, or the script ran as
  a post-install step. Otherwise the promise of the install script is rejected, nothing
  in \<open>main\<close> handles the rejection and \<^verbatim>\<open>process.exit(0)\<close> is never reached: the
  process ends on the unhandled rejection.
\<close>

theorem force_install_exit:
  assumes "args \<noteq> []" "''--help'' \<notin> set args" "''-h'' \<notin> set args" "''--install'' \<in> set args"
  shows "fst (main w args) =
           (case fst (runInstallScript w) of Resolved \<Rightarrow> Exit 0 | Rejected err \<Rightarrow> Uncaught err) \<and>
         fst (snd (main w args)) = Stdout Force_installing # fst (snd (runInstallScript w)) \<and>
         (fst (main w args) = Exit 0) =
           (spawn_error w = None \<and>
            (pdflatex_runs w \<or> checkTinyTeXInstalled w \<or> fst (fetch w) \<or> postinstall w))"
proof -
  obtain p evs w1 where ri: "runInstallScript w = (p, evs, w1)"
    by (cases "runInstallScript w") auto
  have m: "main w args =
     ((case p of Resolved \<Rightarrow> Exit 0 | Rejected err \<Rightarrow> Uncaught err),
      Stdout Force_installing # evs, w1)"
    by (rule main_install[OF assms ri])
  have "(p = Resolved) = (spawn_error w = None \<and> fst (install_main w) = 0)"
    using ri by (auto simp: runInstallScript_def split: option.splits prod.splits if_splits)
  then have "(p = Resolved) =
      (spawn_error w = None \<and>
       (pdflatex_runs w \<or> checkTinyTeXInstalled w \<or> fst (fetch w) \<or> postinstall w))"
    by (simp add: install_main_status)
  with m ri show ?thesis by (cases p) auto
qed

theorem force_install_exit_witness:
  "fst (main tex_world [''--install'']) = Exit 0 \<and>
   fst (snd (main tex_world [''--install''])) =
     [Stdout Force_installing, Stdout Installing_notice, Spawn_install, Stdout Setup_checking,
      Exec_version, Stdout Setup_found_existing]"
proof -
  have a: "[''--install''] \<noteq> []" "''--help'' \<notin> set [''--install'']"
    "''-h'' \<notin> set [''--install'']" "''--install'' \<in> set [''--install'']"
    by simp_all
  have r: "fst (runInstallScript tex_world) = Resolved" by code_simp
  have e: "fst (snd (runInstallScript tex_world)) =
     [Stdout Installing_notice, Spawn_install, Stdout Setup_checking,
      Exec_version, Stdout Setup_found_existing]" by code_simp
  from force_install_exit[OF a, of tex_world] r e show ?thesis by simp
qed

text \<open>
  The claim as stated fails when the installation fails: on a host with no LaTeX and
  a failing download the install script exits with status 1 and the command ends on
  the unhandled rejection \<open>Installation failed\<close>, not with status 0.
\<close>

theorem force_install_failure_uncaught:
  "fst (main bare_world [''--install'']) = Uncaught ''Installation failed'' \<and>
   fst (snd (main bare_world [''--install''])) =
     [Stdout Force_installing, Stdout Installing_notice, Spawn_install, Stdout Setup_checking,
      Exec_version, Stdout Setup_installing, Fetch_archive, Stdout Setup_install_error,
      Stdout Setup_failed]"
  by code_simp

text \<open>
  C3 (as amended). In an invocation without help or install flag, let an argument
  after the first start with two dashes and not with \<open>--engine=\<close>. Then the process
  exits with status 1 and no engine is ever run. The flag is rejected only after the
  availability check, the link repair and, where no LaTeX was found, the automatic
  installation: the trace is the trace of \<open>ensureLaTeX\<close>, followed by the rejection
  of the first such flag when LaTeX is ready. The first argument is never checked: it
  is the input path.
\<close>

theorem unknown_flag_rejected_after_setup:
  assumes "flags_absent (inputFile # rest)" "List.find unknown_flag rest = Some a"
  shows "fst (main w (inputFile # rest)) = Exit 1 \<and>
         runs (fst (snd (main w (inputFile # rest)))) = [] \<and>
         fst (snd (main w (inputFile # rest))) =
           fst (snd (ensureLaTeX w)) @
           (if fst (ensureLaTeX w) then [Stderr (Unknown_option a)] else [])"
proof -
  obtain ready evs w1 where en: "ensureLaTeX w = (ready, evs, w1)"
    by (cases "ensureLaTeX w") auto
  have nr: "runs evs = []" by (rule ensureLaTeX_no_runs[OF en])
  show ?thesis
  proof (cases ready)
    case False
    with main_not_ready[OF assms(1)] en nr show ?thesis by simp
  next
    case True
    with main_unknown[OF assms(1) _ parseArgs_unknown[OF assms(2)]] en nr
    show ?thesis by simp
  qed
qed

theorem unknown_flag_rejected_after_setup_witness:
  "flags_absent [''doc.tex'', ''out.pdf'', ''--bogus''] \<and>
   List.find unknown_flag [''out.pdf'', ''--bogus''] = Some ''--bogus'' \<and>
   fst (main tex_world [''doc.tex'', ''out.pdf'', ''--bogus'']) = Exit 1 \<and>
   fst (snd (main tex_world [''doc.tex'', ''out.pdf'', ''--bogus''])) =
     [Exec_which, Stderr (Unknown_option ''--bogus'')]"
proof -
  have f: "flags_absent [''doc.tex'', ''out.pdf'', ''--bogus'']" by code_simp
  have u: "List.find unknown_flag [''out.pdf'', ''--bogus''] = Some ''--bogus''" by code_simp
  have e: "fst (snd (ensureLaTeX tex_world)) = [Exec_which]" "fst (ensureLaTeX tex_world)"
    by code_simp+
  from unknown_flag_rejected_after_setup[OF f u, of tex_world] f u e show ?thesis by simp
qed

text \<open>
  The claim as stated fails on a host with no LaTeX: the availability check, the
  install script, the download and the creation of two aliases all happen before the
  flag is rejected. A flag in first position is not rejected at all: it is looked up
  as the input file.
\<close>

theorem unknown_flag_after_install:
  "fst (main install_world [''doc.tex'', ''--bogus'']) = Exit 1 \<and>
   fst (snd (main install_world [''doc.tex'', ''--bogus''])) =
     [Exec_which, Stdout Installing_notice, Spawn_install, Stdout Setup_checking, Exec_version,
      Stdout Setup_installing, Fetch_archive, Symlinked ''pdftex'' ''pdflatex'',
      Symlinked ''xetex'' ''xelatex'', Stdout Setup_installed, Exec_which,
      Stderr (Unknown_option ''--bogus'')] \<and>
   fst (snd (main tex_world [''--bogus''])) = [Exec_which, Stderr (File_not_found ''--bogus'')]"
  by code_simp

text \<open>
  C6. For an input path that does not exist, \<open>convertFile\<close> reports the missing file
  and exits with status 1 before any engine path is looked up; the fallback is not
  entered; and whatever the other arguments are, the trace of the whole command
  contains no engine run and the command never returns from a successful conversion.
\<close>

theorem missing_input_never_converted:
  assumes "inputPath \<notin> set (files w)"
  shows "convertFile w inputPath outputPath engine = (Inl 1, [Stderr (File_not_found inputPath)]) \<and>
         convert_or_fall_back w inputPath outputPath engine =
           (Exit 1, [Stderr (File_not_found inputPath)]) \<and>
         runs (fst (snd (main w (inputPath # rest)))) = [] \<and>
         fst (main w (inputPath # rest)) \<noteq> Returned"
proof -
  let ?args = "inputPath # rest"
  have m: "runs (fst (snd (main w ?args))) = [] \<and> fst (main w ?args) \<noteq> Returned"
  proof (cases "flags_absent ?args")
    case False
    show ?thesis
    proof (cases "''--help'' \<in> set ?args \<or> ''-h'' \<in> set ?args")
      case True
      then show ?thesis by (simp add: main_help)
    next
      case no_help: False
      with False have inst: "''--install'' \<in> set ?args" by (auto simp: flags_absent_def)
      obtain p evs w1 where ri: "runInstallScript w = (p, evs, w1)"
        by (cases "runInstallScript w") auto
      from no_help inst ri have "main w ?args =
          ((case p of Resolved \<Rightarrow> Exit 0 | Rejected err \<Rightarrow> Uncaught err),
           Stdout Force_installing # evs, w1)"
        by (intro main_install) auto
      with runInstallScript_no_runs[OF ri] show ?thesis by (cases p) auto
    qed
  next
    case True
    obtain ready evs w1 where en: "ensureLaTeX w = (ready, evs, w1)"
      by (cases "ensureLaTeX w") auto
    have nr: "runs evs = []" by (rule ensureLaTeX_no_runs[OF en])
    have fl: "inputPath \<notin> set (files w1)"
      using differs_in_bin_fields(1)[OF ensureLaTeX_frame[OF en]] assms by simp
    show ?thesis
    proof (cases ready)
      case False
      with main_not_ready[OF True] en nr show ?thesis by simp
    next
      case ready: True
      show ?thesis
      proof (cases "parseArgs rest (''xelatex'', None)")
        case (Inl a)
        with main_unknown[OF True] en ready nr show ?thesis by simp
      next
        case (Inr r)
        obtain engine outputFile where r: "r = (engine, outputFile)" by (cases r) auto
        from main_convert[OF True] en ready Inr r nr show ?thesis
          by (simp add: convert_missing[OF fl])
      qed
    qed
  qed
  with assms show ?thesis by (simp add: convertFile_missing convert_missing)
qed

theorem missing_input_never_converted_witness:
  "''nowhere.tex'' \<notin> set (files tex_world) \<and>
   convertFile tex_world ''nowhere.tex'' ''out.pdf'' ''xelatex'' =
     (Inl 1, [Stderr (File_not_found ''nowhere.tex'')]) \<and>
   fst (main tex_world [''nowhere.tex'', ''--engine=pdflatex'']) = Exit 1 \<and>
   fst (snd (main tex_world [''nowhere.tex'', ''--engine=pdflatex''])) =
     [Exec_which, Stderr (File_not_found ''nowhere.tex'')] \<and>
   runs (fst (snd (main tex_world [''nowhere.tex'', ''--engine=pdflatex'']))) = []"
proof -
  have f: "''nowhere.tex'' \<notin> set (files tex_world)" by code_simp
  have o: "fst (main tex_world [''nowhere.tex'', ''--engine=pdflatex'']) = Exit 1"
    "fst (snd (main tex_world [''nowhere.tex'', ''--engine=pdflatex''])) =
       [Exec_which, Stderr (File_not_found ''nowhere.tex'')]"
    by code_simp+
  from missing_input_never_converted[OF f, of "''out.pdf''" "''xelatex''" "[''--engine=pdflatex'']"]
  have "convertFile tex_world ''nowhere.tex'' ''out.pdf'' ''xelatex'' =
          (Inl 1, [Stderr (File_not_found ''nowhere.tex'')])"
    "runs (fst (snd (main tex_world [''nowhere.tex'', ''--engine=pdflatex'']))) = []"
    by simp_all
  with f o show ?thesis by (intro conjI)
qed

text \<open>
  C7. When the first argument is the input path, every further argument is an
  \<open>--engine=\<close> option (so no output path is given) and LaTeX is ready, the conversion
  is run with the output path \<open>path.join(parsed.dir, parsed.name + '.pdf')\<close> of the
  parsed input path, and every engine run of the command writes to that path.
\<close>

theorem default_output_path:
  assumes "inputFile \<notin> {''--help'', ''-h'', ''--install''}"
    and "list_all (\<lambda>a. startsWith a ''--engine='') rest"
    and "ensureLaTeX w = (True, evs, w1)"
  shows "(\<exists>engine. main w (inputFile # rest) =
           (case convert_or_fall_back w1 inputFile (default_output w inputFile) engine of
              (oc, evs2) \<Rightarrow> (oc, evs @ evs2, w1))) \<and>
         set (run_outputs (fst (snd (main w (inputFile # rest))))) \<subseteq> {default_output w inputFile}"
proof -
  have all: "\<forall>a \<in> set rest. startsWith a ''--engine=''"
    using assms(2) by (simp add: list_all_iff)
  have "\<forall>a \<in> set rest. a \<noteq> ''--help'' \<and> a \<noteq> ''-h'' \<and> a \<noteq> ''--install''"
    using all by (auto simp: startsWith_def)
  with assms(1) have fl: "flags_absent (inputFile # rest)"
    by (auto simp: flags_absent_def)
  from parseArgs_engines[OF all, of "''xelatex''" None]
  obtain engine where pa: "parseArgs rest (''xelatex'', None) = Inr (engine, None)" by blast
  have same: "default_output w1 inputFile = default_output w inputFile"
    using differs_in_bin_fields(2,3)[OF ensureLaTeX_frame[OF assms(3)]]
    by (simp add: default_output_def)
  obtain oc evs2 where
    cv: "convert_or_fall_back w1 inputFile (default_output w inputFile) engine = (oc, evs2)"
    by (cases "convert_or_fall_back w1 inputFile (default_output w inputFile) engine") auto
  from main_convert[OF fl assms(3) pa] same cv
  have m: "main w (inputFile # rest) = (oc, evs @ evs2, w1)" by simp
  have "runs evs = []" by (rule ensureLaTeX_no_runs[OF assms(3)])
  then have "run_outputs (evs @ evs2) = run_outputs evs2" by (simp add: run_outputs_def)
  moreover have "set (run_outputs evs2) \<subseteq> {default_output w inputFile}"
    using convert_outputs[of w1 inputFile "default_output w inputFile" engine] cv by simp
  ultimately have "set (run_outputs (fst (snd (main w (inputFile # rest))))) \<subseteq>
      {default_output w inputFile}"
    using m by simp
  moreover from m cv have "\<exists>engine. main w (inputFile # rest) =
           (case convert_or_fall_back w1 inputFile (default_output w inputFile) engine of
              (oc, evs2) \<Rightarrow> (oc, evs @ evs2, w1))"
    by (intro exI[of _ engine]) simp
  ultimately show ?thesis by (intro conjI)
qed

theorem default_output_path_witness:
  "list_all (\<lambda>a. startsWith a ''--engine='') [''--engine=lualatex''] \<and>
   fst (ensureLaTeX tex_world) \<and>
   default_output tex_world ''paper/doc.tex'' = ''paper/doc.pdf'' \<and>
   run_outputs (fst (snd (main tex_world [''paper/doc.tex'', ''--engine=lualatex'']))) =
     [''paper/doc.pdf''] \<and>
   set (run_outputs (fst (snd (main tex_world [''paper/doc.tex'', ''--engine=lualatex''])))) \<subseteq>
     {''paper/doc.pdf''}"
proof -
  have i: "''paper/doc.tex'' \<notin> {''--help'', ''-h'', ''--install''}" by simp
  have l: "list_all (\<lambda>a. startsWith a ''--engine='') [''--engine=lualatex'']" by code_simp
  have r: "fst (ensureLaTeX tex_world)" by code_simp
  then have e: "ensureLaTeX tex_world =
      (True, fst (snd (ensureLaTeX tex_world)), snd (snd (ensureLaTeX tex_world)))"
    by (cases "ensureLaTeX tex_world") simp
  have d: "default_output tex_world ''paper/doc.tex'' = ''paper/doc.pdf''" by code_simp
  have m: "run_outputs (fst (snd (main tex_world [''paper/doc.tex'', ''--engine=lualatex'']))) =
     [''paper/doc.pdf'']" by code_simp
  from default_output_path[OF i l e] d
  have "set (run_outputs (fst (snd (main tex_world [''paper/doc.tex'', ''--engine=lualatex''])))) \<subseteq>
     {''paper/doc.pdf''}"
    by simp
  with l r d m show ?thesis by (intro conjI)
qed

section \<open>Claims about the two probes\<close>

text \<open>
  C9. \<open>checkTinyTeXInstalled\<close> is true exactly when \<open>xelatex\<close> exists in the vendored
  directory (the directory path being a non-empty string), while \<open>findTinyTeX\<close> returns
  the directory exactly when \<open>pdflatex\<close> exists there. So there is a world where the
  install script reports that TinyTeX is already installed and the locator finds no
  LaTeX, before and after the script, and a world where the check is false and the
  locator returns the vendored directory.
\<close>

theorem installed_check_and_probe_differ:
  "(truthy (getTinyTeXBinPath w) \<longrightarrow>
      checkTinyTeXInstalled w = bin_exists w (exe w ''xelatex'')) \<and>
   (findTinyTeX w = Some (getTinyTeXBinPath w)) = bin_exists w (exe w ''pdflatex'') \<and>
   (findTinyTeX w = None) = (\<not> bin_exists w (exe w ''pdflatex'')) \<and>
   (\<exists>w1. checkTinyTeXInstalled w1 \<and> getLaTeXPath w1 = None \<and>
         fst (install_main w1) = 0 \<and>
         Stdout Setup_already_installed \<in> set (fst (snd (install_main w1))) \<and>
         getLaTeXPath (snd (snd (install_main w1))) = None) \<and>
   (\<exists>w2. \<not> checkTinyTeXInstalled w2 \<and> getLaTeXPath w2 = Some (getTinyTeXBinPath w2, Tinytex))"
proof -
  have a: "truthy (getTinyTeXBinPath w) \<longrightarrow>
      checkTinyTeXInstalled w = bin_exists w (exe w ''xelatex'')"
    by (simp add: checkTinyTeXInstalled_def exe_def)
  have b: "(findTinyTeX w = Some (getTinyTeXBinPath w)) = bin_exists w (exe w ''pdflatex'')"
    "(findTinyTeX w = None) = (\<not> bin_exists w (exe w ''pdflatex''))"
    by (simp_all add: findTinyTeX_def getTinyTeXBinPath_def exe_def Let_def)
  have c: "checkTinyTeXInstalled only_xelatex_world \<and> getLaTeXPath only_xelatex_world = None \<and>
         fst (install_main only_xelatex_world) = 0 \<and>
         Stdout Setup_already_installed \<in> set (fst (snd (install_main only_xelatex_world))) \<and>
         getLaTeXPath (snd (snd (install_main only_xelatex_world))) = None"
    by code_simp
  have d: "\<not> checkTinyTeXInstalled only_pdflatex_world \<and>
      getLaTeXPath only_pdflatex_world = Some (getTinyTeXBinPath only_pdflatex_world, Tinytex)"
    by code_simp
  from c have c': "\<exists>w1. checkTinyTeXInstalled w1 \<and> getLaTeXPath w1 = None \<and>
         fst (install_main w1) = 0 \<and>
         Stdout Setup_already_installed \<in> set (fst (snd (install_main w1))) \<and>
         getLaTeXPath (snd (snd (install_main w1))) = None"
    by (rule exI)
  from d have d': "\<exists>w2. \<not> checkTinyTeXInstalled w2 \<and>
      getLaTeXPath w2 = Some (getTinyTeXBinPath w2, Tinytex)"
    by (rule exI)
  from a b c' d' show ?thesis by (intro conjI)
qed

theorem installed_check_and_probe_differ_witness:
  "truthy (getTinyTeXBinPath only_xelatex_world) \<and>
   checkTinyTeXInstalled only_xelatex_world \<and>
   bin_exists only_xelatex_world ''xelatex'' \<and>
   \<not> bin_exists only_xelatex_world ''pdflatex'' \<and>
   findTinyTeX only_xelatex_world = None \<and>
   fst (ensureLaTeX only_xelatex_world) = False"
proof -
  have t: "truthy (getTinyTeXBinPath only_xelatex_world)" by code_simp
  have x: "exe only_xelatex_world ''xelatex'' = ''xelatex''"
    "exe only_xelatex_world ''pdflatex'' = ''pdflatex''"
    by code_simp+
  have e: "bin_exists only_xelatex_world ''xelatex''"
    "\<not> bin_exists only_xelatex_world ''pdflatex''"
    "fst (ensureLaTeX only_xelatex_world) = False"
    by code_simp+
  from installed_check_and_probe_differ[of only_xelatex_world] t x e
  show ?thesis by simp
qed

text \<open>
  C10. For every engine name, \<open>getEnginePath\<close> is absent exactly when no LaTeX
  location resolves, and otherwise it is the location joined with the executable name
  of the engine, whether or not such a file exists. Hence, \<^verbatim>\<open>path.join\<close> never
  returning the empty string, \<open>convertFile\<close> reports that the engine was not found
  exactly when the input exists and no location resolves.
\<close>

theorem engine_path_never_checked:
  "(getEnginePath w engine = None) = (getLaTeXPath w = None) \<and>
   getEnginePath w engine =
     map_option (\<lambda>latexInfo. path_join w [fst latexInfo, exe w engine]) (getLaTeXPath w) \<and>
   (join_nonempty w \<longrightarrow>
      (convertFile w inputPath outputPath engine =
         (Inl 1, [Exec_which, Stderr (Engine_not_found engine)])) =
      (inputPath \<in> set (files w) \<and> getLaTeXPath w = None))"
proof -
  have a: "getEnginePath w engine =
     map_option (\<lambda>latexInfo. path_join w [fst latexInfo, exe w engine]) (getLaTeXPath w)"
    by (simp add: getEnginePath_def exe_def split: option.splits)
  then have b: "(getEnginePath w engine = None) = (getLaTeXPath w = None)" by simp
  have c: "(convertFile w inputPath outputPath engine =
         (Inl 1, [Exec_which, Stderr (Engine_not_found engine)])) =
      (inputPath \<in> set (files w) \<and> getLaTeXPath w = None)" if j: "join_nonempty w"
  proof (cases "getLaTeXPath w")
    case None
    then show ?thesis by (simp add: convertFile_def a)
  next
    case (Some latexInfo)
    have "truthy (path_join w [fst latexInfo, exe w engine])"
      using j by (simp add: truthy_def join_nonempty_def)
    with Some show ?thesis
      by (simp add: convertFile_def a split: option.splits)
  qed
  from a b c show ?thesis by simp
qed

theorem engine_path_never_checked_witness:
  "join_nonempty only_pdflatex_world \<and>
   getEnginePath only_pdflatex_world ''no-such-engine'' =
     Some ''/opt/tex2pdf/.tinytex/bin/x86_64-linux/no-such-engine'' \<and>
   \<not> bin_exists only_pdflatex_world ''no-such-engine'' \<and>
   fst (convertFile only_pdflatex_world ''doc.tex'' ''doc.pdf'' ''no-such-engine'') = Inr Resolved \<and>
   getEnginePath bare_world ''xelatex'' = None \<and>
   convertFile bare_world ''doc.tex'' ''doc.pdf'' ''xelatex'' =
     (Inl 1, [Exec_which, Stderr (Engine_not_found ''xelatex'')])"
proof -
  have j: "join_nonempty only_pdflatex_world"
    by (simp add: join_nonempty_def only_pdflatex_world_def bare_world_def plain_join_nonempty)
  have l: "getLaTeXPath bare_world = None" "''doc.tex'' \<in> set (files bare_world)"
    by code_simp+
  have e: "getEnginePath only_pdflatex_world ''no-such-engine'' =
     Some ''/opt/tex2pdf/.tinytex/bin/x86_64-linux/no-such-engine''"
    "\<not> bin_exists only_pdflatex_world ''no-such-engine''"
    "fst (convertFile only_pdflatex_world ''doc.tex'' ''doc.pdf'' ''no-such-engine'') = Inr Resolved"
    by code_simp+
  from engine_path_never_checked[of bare_world "''xelatex''" "''doc.tex''" "''doc.pdf''"]
    join_nonempty_bare l
  have "getEnginePath bare_world ''xelatex'' = None"
    "convertFile bare_world ''doc.tex'' ''doc.pdf'' ''xelatex'' =
       (Inl 1, [Exec_which, Stderr (Engine_not_found ''xelatex'')])"
    by simp_all
  with j e show ?thesis by (intro conjI)
qed

end
